theory Spec2Isabelle
  imports Complex_Main "HOL-Library.Word" "HOL-Library.Log_Nat"
begin

unbundle bit_operations_syntax

section \<open>The e-puck driver node (controller.cpp)\<close>

text \<open>
  The node converts velocity commands into two wheel registers, exchanges two fixed-size
  byte buffers with the robot's microcontroller on every timer tick, and turns eight
  proximity intensities into a 21-entry laser scan.

  Numbers: a C++ \<open>double\<close> is a value of the type \<open>double\<close> below, IEEE 754 binary64
  with every operation rounded to the nearest value, ties to even; the C++ \<open>float\<close>
  values of the distance model and of the scan are modelled by \<open>real\<close>, so their
  arithmetic is exact (rounding is not modelled there); C++ \<open>int\<close> is \<open>int\<close> (no value of
  this program leaves the 32-bit range); C++ \<open>char\<close> buffer cells are \<open>8 word\<close>.
  An integer expression such as \<open>3 / 4\<close> is integer division in C++ and is written
  \<open>3 div 4\<close> on \<open>int\<close> before it is converted to \<open>real\<close>.
\<close>

subsection \<open>Constants\<close>

definition MSG_ACTUATORS_SIZE :: nat where "MSG_ACTUATORS_SIZE = 20"
definition MSG_SENSORS_SIZE :: nat where "MSG_SENSORS_SIZE = 47"
definition PERIOD_MS :: int where "PERIOD_MS = 64"

subsection \<open>Distance model: \<open>intensity_to_distance\<close>\<close>

text \<open>The calibration table, rows \<open>(distance, intensity)\<close> in the order of the source.\<close>

definition table :: "(real \<times> real) list" where
  "table =
    [(0, 4095),
     (0.005, 2133.33),
     (0.01, 1465.73),
     (0.015, 601.46),
     (0.02, 383.84),
     (0.03, 234.93),
     (0.04, 158.03),
     (0.05, 120),
     (0.06, 104.09),
     (0.07, 67.19),
     (0.1, 0.0)]"

text \<open>
  The loop \<open>for i = 0 .. table.size() - 2\<close> looks at the rows \<open>i\<close> and \<open>i + 1\<close>: row \<open>i\<close>
  is \<open>(b_y, b_x)\<close>, row \<open>i + 1\<close> is \<open>(a_y, a_x)\<close>. It returns from the first pair with
  \<open>b_x \<ge> p_x\<close> and \<open>a_x < p_x\<close>; when the rows are used up it returns \<open>100.0\<close>.
\<close>

fun scan_table :: "(real \<times> real) list \<Rightarrow> real \<Rightarrow> real" where
  "scan_table ((b_y, b_x) # (a_y, a_x) # rest) p_x =
     (if b_x \<ge> p_x \<and> a_x < p_x
      then ((b_y - a_y) / (b_x - a_x)) * (p_x - a_x) + a_y
      else scan_table ((a_y, a_x) # rest) p_x)"
| "scan_table _ p_x = 100.0"

definition intensity_to_distance :: "real \<Rightarrow> real" where
  "intensity_to_distance p_x = scan_table table p_x"

text \<open>
  A table is well ordered when, from each row to the next, the intensity strictly
  decreases and the distance does not decrease.
\<close>

fun table_ordered :: "(real \<times> real) list \<Rightarrow> bool" where
  "table_ordered ((b_y, b_x) # (a_y, a_x) # rest) =
     (a_x < b_x \<and> b_y \<le> a_y \<and> table_ordered ((a_y, a_x) # rest))"
| "table_ordered _ = True"

subsection \<open>Buffers, messages and the node's state\<close>

type_synonym byte = "8 word"

text \<open>The fields of \<open>sensor_msgs::msg::LaserScan\<close> that the node sets; the stamp is a clock reading.\<close>

record LaserScan =
  frame_id :: string
  stamp :: nat
  angle_min :: real
  angle_max :: real
  angle_increment :: real
  scan_time :: real
  range_min :: real
  range_max :: real
  ranges :: "real list"

text \<open>
  The members \<open>msg_actuators\<close> and \<open>msg_sensors\<close> of the class \<open>EPuckPublisher\<close>, and two
  logs of what the node hands to its collaborators: the buffers given to
  \<open>i2c_main.write_data\<close> and the messages given to \<open>laser_publisher->publish\<close>, oldest first.
\<close>

record EPuckPublisher =
  msg_actuators :: "byte list"
  msg_sensors :: "byte list"
  i2c_written :: "byte list list"
  laser_published :: "LaserScan list"

text \<open>The constructor zeroes both buffers.\<close>

definition init :: EPuckPublisher where
  "init = \<lparr>msg_actuators = replicate MSG_ACTUATORS_SIZE 0,
           msg_sensors = replicate MSG_SENSORS_SIZE 0,
           i2c_written = [],
           laser_published = []\<rparr>"

subsection \<open>The arithmetic of \<open>double\<close>\<close>

text \<open>
  A finite binary64 value is \<open>Dbl m e\<close>, the number \<open>m * 2 ^ e\<close> (a number of the
  format can be written so with \<open>\<bar>m\<bar> < 2 ^ 53\<close> and \<open>- 1074 \<le> e \<le> 971\<close>; the operations take
  any \<open>m\<close> and \<open>e\<close> and return numbers of the format); the other values are the two infinities and NaN.
  The sign of a zero is not kept: it would matter only for a division by zero, and the
  node divides by the constants \<open>2.0 * WHEEL_RADIUS\<close> and \<open>0.0068\<close> only. Every operation
  is rounded by itself, as the expressions are written; none is fused with another.
\<close>

datatype double = Dbl int int | PosInf | NegInf | NaN

text \<open>The integer nearest to \<open>x / y\<close> for \<open>0 < y\<close>; of two equally near ones, the even one.\<close>

definition round_half_even :: "int \<Rightarrow> int \<Rightarrow> int" where
  "round_half_even x y =
     (let n = x div y; r = x mod y
      in if 2 * r < y then n
         else if y < 2 * r then n + 1
         else if even n then n else n + 1)"

text \<open>
  The binary64 value nearest to \<open>p * 2 ^ s / q\<close>, for \<open>0 < q\<close>. With \<open>E\<close> the binary
  exponent of the number (\<open>2 ^ E \<le> \<bar>p\<bar> * 2 ^ s / q < 2 ^ (E + 1)\<close>), the result is a
  multiple of \<open>2 ^ k\<close> where \<open>k = E - 52\<close>, or \<open>k = - 1074\<close> for a subnormal result. A result
  of magnitude \<open>2 ^ 1024\<close> or more is an infinity.
\<close>

definition round64 :: "int \<Rightarrow> int \<Rightarrow> int \<Rightarrow> double" where
  "round64 p q s =
     (if p = 0 then Dbl 0 0
      else
        let a = \<bar>p\<bar>;
            d = bitlen a - bitlen q;
            E = (if (if 0 \<le> d then q * 2 ^ nat d \<le> a else q \<le> a * 2 ^ nat (- d))
                 then d else d - 1) + s;
            k = max E (- 1022) - 52;
            n = (if k \<le> s then round_half_even (a * 2 ^ nat (s - k)) q
                 else round_half_even a (q * 2 ^ nat (k - s)))
        in if 971 < k \<or> (k = 971 \<and> 2 ^ 53 \<le> n)
           then (if 0 < p then PosInf else NegInf)
           else Dbl (if 0 < p then n else - n) k)"

fun dmul :: "double \<Rightarrow> double \<Rightarrow> double" where
  "dmul NaN _ = NaN"
| "dmul _ NaN = NaN"
| "dmul (Dbl m1 e1) (Dbl m2 e2) = round64 (m1 * m2) 1 (e1 + e2)"
| "dmul (Dbl m e) PosInf = (if m = 0 then NaN else if 0 < m then PosInf else NegInf)"
| "dmul (Dbl m e) NegInf = (if m = 0 then NaN else if 0 < m then NegInf else PosInf)"
| "dmul PosInf (Dbl m e) = (if m = 0 then NaN else if 0 < m then PosInf else NegInf)"
| "dmul NegInf (Dbl m e) = (if m = 0 then NaN else if 0 < m then NegInf else PosInf)"
| "dmul PosInf PosInf = PosInf"
| "dmul PosInf NegInf = NegInf"
| "dmul NegInf PosInf = NegInf"
| "dmul NegInf NegInf = PosInf"

fun dadd :: "double \<Rightarrow> double \<Rightarrow> double" where
  "dadd NaN _ = NaN"
| "dadd _ NaN = NaN"
| "dadd (Dbl m1 e1) (Dbl m2 e2) =
     round64 (m1 * 2 ^ nat (e1 - min e1 e2) + m2 * 2 ^ nat (e2 - min e1 e2)) 1 (min e1 e2)"
| "dadd (Dbl m e) b = b"
| "dadd a (Dbl m e) = a"
| "dadd PosInf PosInf = PosInf"
| "dadd NegInf NegInf = NegInf"
| "dadd _ _ = NaN"

fun dneg :: "double \<Rightarrow> double" where
  "dneg (Dbl m e) = Dbl (- m) e"
| "dneg PosInf = NegInf"
| "dneg NegInf = PosInf"
| "dneg NaN = NaN"

definition dsub :: "double \<Rightarrow> double \<Rightarrow> double" where
  "dsub a b = dadd a (dneg b)"

fun ddiv :: "double \<Rightarrow> double \<Rightarrow> double" where
  "ddiv NaN _ = NaN"
| "ddiv _ NaN = NaN"
| "ddiv (Dbl m1 e1) (Dbl m2 e2) =
     (if m2 = 0 then (if m1 = 0 then NaN else if 0 < m1 then PosInf else NegInf)
      else if 0 < m2 then round64 m1 m2 (e1 - e2)
      else round64 (- m1) (- m2) (e1 - e2))"
| "ddiv (Dbl m e) _ = Dbl 0 0"
| "ddiv PosInf (Dbl m e) = (if 0 \<le> m then PosInf else NegInf)"
| "ddiv NegInf (Dbl m e) = (if 0 \<le> m then NegInf else PosInf)"
| "ddiv _ _ = NaN"

text \<open>The comparison \<open><\<close>: false whenever an operand is NaN.\<close>

fun dless :: "double \<Rightarrow> double \<Rightarrow> bool" where
  "dless NaN _ = False"
| "dless _ NaN = False"
| "dless (Dbl m1 e1) (Dbl m2 e2) =
     (m1 * 2 ^ nat (e1 - min e1 e2) < m2 * 2 ^ nat (e2 - min e1 e2))"
| "dless PosInf _ = False"
| "dless _ NegInf = False"
| "dless _ _ = True"

text \<open>
  A decimal literal with the given digits and number of decimal places (\<open>0.05685\<close> is
  \<open>double_lit 5685 5\<close>), and the conversion of an \<open>int\<close> operand to \<open>double\<close>.
\<close>

definition double_lit :: "int \<Rightarrow> nat \<Rightarrow> double" where
  "double_lit digits places = round64 digits (10 ^ places) 0"

definition double_of_int :: "int \<Rightarrow> double" where
  "double_of_int i = round64 i 1 0"

text \<open>
  Initialising an \<open>int\<close> from a \<open>double\<close> discards the fractional part. For an infinity
  or NaN the conversion has no defined result in C++; the node converts clipped values
  only, which are finite (lemma \<open>CLIP_finite\<close>), so the last equation is never used.
\<close>

fun double_to_int :: "double \<Rightarrow> int" where
  "double_to_int (Dbl m e) =
     (if 0 \<le> e then m * 2 ^ nat e
      else if 0 \<le> m then m div 2 ^ nat (- e)
      else - ((- m) div 2 ^ nat (- e)))"
| "double_to_int _ = 0"

subsection \<open>Kinematics: \<open>on_cmd_vel_received\<close>\<close>

definition WHEEL_DISTANCE :: double where "WHEEL_DISTANCE = double_lit 5685 5"
definition WHEEL_RADIUS :: double where "WHEEL_RADIUS = double_lit 2 2"

text \<open>
  The macros \<open>min\<close>, \<open>max\<close> and \<open>CLIP\<close>, here on \<open>double\<close> operands (the \<open>int\<close> bounds are
  converted for the comparisons and for the result): \<open>min(X, Y)\<close> is
  \<open>X < Y ? X : Y\<close> and \<open>max(X, Y)\<close> is \<open>X > Y ? X : Y\<close>.
\<close>

definition min_macro :: "double \<Rightarrow> double \<Rightarrow> double" where
  "min_macro X Y = (if dless X Y then X else Y)"

definition max_macro :: "double \<Rightarrow> double \<Rightarrow> double" where
  "max_macro X Y = (if dless Y X then X else Y)"

definition CLIP :: "double \<Rightarrow> double \<Rightarrow> double \<Rightarrow> double" where
  "CLIP VAL MINV MAXV = max_macro (min_macro MAXV VAL) MINV"

definition left_velocity :: "double \<Rightarrow> double \<Rightarrow> double" where
  "left_velocity linear_x angular_z =
     ddiv (dsub (dmul (double_lit 20 1) linear_x) (dmul angular_z WHEEL_DISTANCE))
          (dmul (double_lit 20 1) WHEEL_RADIUS)"

definition right_velocity :: "double \<Rightarrow> double \<Rightarrow> double" where
  "right_velocity linear_x angular_z =
     ddiv (dadd (dmul (double_lit 20 1) linear_x) (dmul angular_z WHEEL_DISTANCE))
          (dmul (double_lit 20 1) WHEEL_RADIUS)"

definition left_velocity_big :: "double \<Rightarrow> double \<Rightarrow> int" where
  "left_velocity_big linear_x angular_z =
     double_to_int (CLIP (ddiv (left_velocity linear_x angular_z) (double_lit 68 4))
                         (double_of_int (- 1108)) (double_of_int 1108))"

definition right_velocity_big :: "double \<Rightarrow> double \<Rightarrow> int" where
  "right_velocity_big linear_x angular_z =
     double_to_int (CLIP (ddiv (right_velocity linear_x angular_z) (double_lit 68 4))
                         (double_of_int (- 1108)) (double_of_int 1108))"

text \<open>
  \<open>v & 0xFF\<close> and \<open>(v >> 8) & 0xFF\<close> on an \<open>int\<close>, stored into a \<open>char\<close> cell. The shift
  of a negative \<open>int\<close> is arithmetic, as \<open>drop_bit\<close> on \<open>int\<close> is.
\<close>

definition low_byte :: "int \<Rightarrow> byte" where
  "low_byte v = word_of_int (v AND 0xFF)"

definition high_byte :: "int \<Rightarrow> byte" where
  "high_byte v = word_of_int (drop_bit 8 v AND 0xFF)"

text \<open>
  The four assignments to \<open>msg_actuators[0 .. 3]\<close> that end \<open>on_cmd_vel_received\<close>, for the
  two registers computed before them.
\<close>

definition store_registers :: "int \<Rightarrow> int \<Rightarrow> EPuckPublisher \<Rightarrow> EPuckPublisher" where
  "store_registers left_big right_big st =
     st\<lparr>msg_actuators :=
          (msg_actuators st)[0 := low_byte left_big, 1 := high_byte left_big,
                             2 := low_byte right_big, 3 := high_byte right_big]\<rparr>"

definition on_cmd_vel_received :: "double \<Rightarrow> double \<Rightarrow> EPuckPublisher \<Rightarrow> EPuckPublisher" where
  "on_cmd_vel_received linear_x angular_z st =
     store_registers (left_velocity_big linear_x angular_z)
                     (right_velocity_big linear_x angular_z) st"

text \<open>
  The reading of two frame bytes as one little-endian signed 16-bit number, which is
  how the receiver of the actuator frame takes a wheel register. This follows the
  specification's wording of the frame layout; the node itself never decodes the
  actuator frame.
\<close>

definition decode_int16_le :: "byte \<Rightarrow> byte \<Rightarrow> int" where
  "decode_int16_le lo hi = sint (word_cat hi lo :: 16 word)"

subsection \<open>Scan assembly: \<open>publish_distance_data\<close>\<close>

definition distance_from_center :: real where
  "distance_from_center = 0.035"

text \<open>
  A \<open>char\<close> is promoted to \<open>int\<close> before the arithmetic; whether \<open>char\<close> is signed is
  the platform's choice and is a parameter here.
\<close>

definition char_to_int :: "bool \<Rightarrow> byte \<Rightarrow> int" where
  "char_to_int char_signed c = (if char_signed then sint c else uint c)"

definition distance_intensity :: "bool \<Rightarrow> byte list \<Rightarrow> nat \<Rightarrow> int" where
  "distance_intensity char_signed sensors i =
     char_to_int char_signed (sensors ! (i * 2))
       + push_bit 8 (char_to_int char_signed (sensors ! (i * 2 + 1)))"

definition decode_measurements :: "bool \<Rightarrow> byte list \<Rightarrow> real list" where
  "decode_measurements char_signed sensors =
     map (\<lambda>i. intensity_to_distance (real_of_int (distance_intensity char_signed sensors i))
                 + distance_from_center) [0..<8]"

text \<open>
  The initialiser of \<open>msg.ranges\<close>; \<open>dists\<close> is the local array \<open>dist\<close>. Each weight is a quotient of two \<open>int\<close> literals,
  computed as an \<open>int\<close> and then converted for the multiplication.
\<close>

definition scan_ranges :: "real list \<Rightarrow> real list" where
  "scan_ranges dists =
    [dists ! 4,
     real_of_int (3 div 4) * dists ! 4 + real_of_int (1 div 4) * dists ! 5,
     real_of_int (2 div 4) * dists ! 4 + real_of_int (2 div 4) * dists ! 5,
     real_of_int (1 div 4) * dists ! 4 + real_of_int (3 div 4) * dists ! 5,
     dists ! 5,
     real_of_int (2 div 3) * dists ! 5 + real_of_int (1 div 3) * dists ! 6,
     real_of_int (1 div 3) * dists ! 5 + real_of_int (2 div 3) * dists ! 6,
     dists ! 6,
     real_of_int (1 div 2) * dists ! 6 + real_of_int (1 div 2) * dists ! 7,
     dists ! 7,
     real_of_int (1 div 2) * dists ! 7 + real_of_int (1 div 2) * dists ! 0,
     dists ! 0,
     real_of_int (1 div 2) * dists ! 0 + real_of_int (1 div 2) * dists ! 1,
     dists ! 1,
     real_of_int (2 div 3) * dists ! 1 + real_of_int (1 div 3) * dists ! 2,
     real_of_int (1 div 3) * dists ! 1 + real_of_int (2 div 3) * dists ! 2,
     dists ! 2,
     real_of_int (3 div 4) * dists ! 2 + real_of_int (1 div 4) * dists ! 3,
     real_of_int (2 div 4) * dists ! 2 + real_of_int (2 div 4) * dists ! 3,
     real_of_int (1 div 4) * dists ! 2 + real_of_int (3 div 4) * dists ! 3,
     dists ! 3]"

definition laser_scan_msg :: "real list \<Rightarrow> nat \<Rightarrow> LaserScan" where
  "laser_scan_msg dists stmp =
     \<lparr>frame_id = ''laser_scanner'',
      stamp = stmp,
      angle_min = -150 * pi / 180,
      angle_max = 150 * pi / 180,
      angle_increment = 15 * pi / 180.0,
      scan_time = real_of_int (PERIOD_MS div 1000),
      range_min = 0.005 + distance_from_center,
      range_max = 0.05 + distance_from_center,
      ranges = scan_ranges dists\<rparr>"

definition publish_distance_data :: "bool \<Rightarrow> nat \<Rightarrow> EPuckPublisher \<Rightarrow> EPuckPublisher" where
  "publish_distance_data char_signed stmp st =
     (let dists = decode_measurements char_signed (msg_sensors st);
          msg = laser_scan_msg dists stmp
      in st\<lparr>laser_published := laser_published st @ [msg]\<rparr>)"

subsection \<open>Periodic exchange: \<open>update_callback\<close>\<close>

text \<open>
  What one tick receives from its collaborators: the status returned by
  \<open>i2c_main.set_address(0x1F)\<close>, the bytes the bus delivers to \<open>read_data\<close>, and the
  reading of the clock \<open>now()\<close>.
\<close>

record tick_io =
  set_address_status :: int
  read_bytes :: "byte list"
  now :: nat

text \<open>
  Modelled from the spec: \<open>epuck_ros2_cpp/i2c_wrapper.hpp\<close> (the class \<open>I2CWrapperTest\<close>
  with \<open>set_address\<close>, \<open>write_data\<close> and \<open>read_data\<close>) is not among the sources. The
  specification gives the transport as \<open>read(buffer, length) -> bytes_read\<close>, which
  overwrites the buffer with what was received: the received bytes, at most \<open>length\<close> of
  them, replace the front of the buffer.
\<close>

definition read_data :: "byte list \<Rightarrow> nat \<Rightarrow> byte list \<Rightarrow> byte list" where
  "read_data received len buffer =
     take len received @ drop (length (take len received)) buffer"

datatype error = AssertionFailed

text \<open>
  \<open>assert(status >= 0)\<close> ends the process when it fails, unless the translation unit is
  compiled with \<open>NDEBUG\<close>, which removes it; \<open>ndebug\<close> says which. A process that ends so
  is the error together with the state it ended in: the buffers, and what had been
  written to the bus and published until then. The value returned by \<open>read_data\<close> is
  dropped, \<open>status\<close> still holds what \<open>set_address\<close> returned, and the statement under the
  final \<open>if\<close> is \<open>stamp = now()\<close>. The function ends there. Its regular result here is the
  node's state and the final value of the local \<open>stamp\<close> (initially the default time,
  zero).
\<close>

definition update_callback ::
    "bool \<Rightarrow> tick_io \<Rightarrow> EPuckPublisher
       \<Rightarrow> (error \<times> EPuckPublisher) + (EPuckPublisher \<times> nat)" where
  "update_callback ndebug io st =
     (let status = set_address_status io
      in if \<not> ndebug \<and> \<not> (status \<ge> 0) then Inl (AssertionFailed, st)
         else
           let st1 = st\<lparr>i2c_written := i2c_written st @ [take MSG_ACTUATORS_SIZE (msg_actuators st)]\<rparr>;
               st2 = st1\<lparr>msg_sensors := read_data (read_bytes io) MSG_SENSORS_SIZE (msg_sensors st1)\<rparr>;
               stmp = (if status \<noteq> int MSG_SENSORS_SIZE then now io else 0)
           in Inr (st2, stmp))"

text \<open>
  \<open>rclcpp::spin\<close> runs the callbacks one after the other on one thread: a timer tick or
  an arriving command. A failed assertion ends the process, so nothing after it runs.
\<close>

datatype event = Tick tick_io | CmdVel double double

fun spin ::
    "bool \<Rightarrow> event list \<Rightarrow> EPuckPublisher \<Rightarrow> (error \<times> EPuckPublisher) + EPuckPublisher" where
  "spin ndebug [] st = Inr st"
| "spin ndebug (Tick io # evs) st =
     (case update_callback ndebug io st of
        Inl e \<Rightarrow> Inl e
      | Inr (st', stmp) \<Rightarrow> spin ndebug evs st')"
| "spin ndebug (CmdVel linear_x angular_z # evs) st =
     spin ndebug evs (on_cmd_vel_received linear_x angular_z st)"

section \<open>Properties of the distance model\<close>

lemma table_ordered_table: "table_ordered table"
  by (simp add: table_def)

lemma scan_table_above:
  "table_ordered ((y0, x0) # t) \<Longrightarrow> x0 < p \<Longrightarrow> scan_table ((y0, x0) # t) p = 100"
proof (induction t arbitrary: y0 x0)
  case Nil
  then show ?case by simp
next
  case (Cons r t)
  obtain a_y a_x where r: "r = (a_y, a_x)" by (cases r)
  from Cons.prems r have "a_x < p" and "table_ordered ((a_y, a_x) # t)" by simp_all
  with Cons.IH [of a_y a_x] Cons.prems(2) r show ?case by simp
qed

lemma scan_table_below:
  "t \<noteq> [] \<Longrightarrow> table_ordered t \<Longrightarrow> p \<le> snd (last t) \<Longrightarrow> scan_table t p = 100"
proof (induction t p rule: scan_table.induct)
  case (1 b_y b_x a_y a_x rest p_x)
  have ord: "table_ordered ((a_y, a_x) # rest)" using "1.prems"(2) by simp
  have lst: "p_x \<le> snd (last ((a_y, a_x) # rest))" using "1.prems"(3) by simp
  have "snd (last ((a_y, a_x) # rest)) \<le> a_x" using ord
  proof (induction rest arbitrary: a_y a_x)
    case Nil
    then show ?case by simp
  next
    case (Cons r rest)
    obtain c_y c_x where r: "r = (c_y, c_x)" by (cases r)
    from Cons.prems r have "c_x < a_x" "table_ordered ((c_y, c_x) # rest)" by simp_all
    with Cons.IH [of c_y c_x] r show ?case by simp
  qed
  with lst have "\<not> a_x < p_x" by simp
  with "1.IH" ord lst show ?case by simp
qed simp_all

lemma interp_bounds:
  fixes b_y a_y b_x a_x p :: real
  assumes "a_x < p" "p \<le> b_x" "b_y \<le> a_y"
  shows "b_y \<le> ((b_y - a_y) / (b_x - a_x)) * (p - a_x) + a_y"
    and "((b_y - a_y) / (b_x - a_x)) * (p - a_x) + a_y \<le> a_y"
proof -
  define s where "s = (b_y - a_y) / (b_x - a_x)"
  have pos: "0 < b_x - a_x" using assms by simp
  have s0: "s \<le> 0" unfolding s_def using assms pos by (simp add: divide_nonpos_pos)
  have full: "s * (b_x - a_x) = b_y - a_y" unfolding s_def using pos by simp
  have "s * (b_x - a_x) \<le> s * (p - a_x)"
    using s0 assms by (intro mult_left_mono_neg) simp_all
  with full show "b_y \<le> ((b_y - a_y) / (b_x - a_x)) * (p - a_x) + a_y"
    unfolding s_def by simp
  have "s * (p - a_x) \<le> 0" using s0 assms by (simp add: mult_nonpos_nonneg)
  then show "((b_y - a_y) / (b_x - a_x)) * (p - a_x) + a_y \<le> a_y"
    unfolding s_def by simp
qed

lemma interp_mono:
  fixes b_y a_y b_x a_x x1 x2 :: real
  assumes "a_x < b_x" "b_y \<le> a_y" "x1 \<le> x2"
  shows "((b_y - a_y) / (b_x - a_x)) * (x2 - a_x) + a_y
       \<le> ((b_y - a_y) / (b_x - a_x)) * (x1 - a_x) + a_y"
proof -
  have "(b_y - a_y) / (b_x - a_x) \<le> 0" using assms by (simp add: divide_nonpos_pos)
  then have "((b_y - a_y) / (b_x - a_x)) * (x2 - a_x) \<le> ((b_y - a_y) / (b_x - a_x)) * (x1 - a_x)"
    using assms by (intro mult_left_mono_neg) simp_all
  then show ?thesis by simp
qed

lemma last_distance_ge:
  "table_ordered ((y0, x0) # t) \<Longrightarrow> y0 \<le> fst (last ((y0, x0) # t))"
proof (induction t arbitrary: y0 x0)
  case Nil
  then show ?case by simp
next
  case (Cons r t)
  obtain a_y a_x where r: "r = (a_y, a_x)" by (cases r)
  from Cons.prems r have "y0 \<le> a_y" and "table_ordered ((a_y, a_x) # t)" by simp_all
  with Cons.IH [of a_y a_x] r show ?case by simp
qed

lemma scan_table_inside:
  "table_ordered ((y0, x0) # t) \<Longrightarrow> snd (last ((y0, x0) # t)) < p \<Longrightarrow> p \<le> x0 \<Longrightarrow>
   y0 \<le> scan_table ((y0, x0) # t) p \<and> scan_table ((y0, x0) # t) p \<le> fst (last ((y0, x0) # t))"
proof (induction t arbitrary: y0 x0)
  case Nil
  then show ?case by simp
next
  case (Cons r t)
  obtain a_y a_x where r: "r = (a_y, a_x)" by (cases r)
  from Cons.prems r have ord: "a_x < x0" "y0 \<le> a_y" "table_ordered ((a_y, a_x) # t)"
    by simp_all
  from Cons.prems(2) r have lst: "snd (last ((a_y, a_x) # t)) < p" by simp
  show ?case
  proof (cases "a_x < p")
    case True
    have "a_y \<le> fst (last ((a_y, a_x) # t))" using ord(3) by (rule last_distance_ge)
    with interp_bounds [OF True Cons.prems(3) ord(2)] True Cons.prems(3) r
    show ?thesis by simp
  next
    case False
    then have "p \<le> a_x" by simp
    from Cons.IH [OF ord(3) lst this] ord(2) False r show ?thesis by simp
  qed
qed

lemma scan_table_mono:
  "table_ordered ((y0, x0) # t) \<Longrightarrow> snd (last ((y0, x0) # t)) < x1 \<Longrightarrow> x1 \<le> x2 \<Longrightarrow> x2 \<le> x0 \<Longrightarrow>
   scan_table ((y0, x0) # t) x2 \<le> scan_table ((y0, x0) # t) x1"
proof (induction t arbitrary: y0 x0)
  case Nil
  then show ?case by simp
next
  case (Cons r t)
  obtain a_y a_x where r: "r = (a_y, a_x)" by (cases r)
  from Cons.prems r have ord: "a_x < x0" "y0 \<le> a_y" "table_ordered ((a_y, a_x) # t)"
    by simp_all
  from Cons.prems(2) r have lst: "snd (last ((a_y, a_x) # t)) < x1" by simp
  have x1: "x1 \<le> x0" using Cons.prems by simp
  consider (both) "a_x < x1" | (split) "x1 \<le> a_x" "a_x < x2" | (rest) "x2 \<le> a_x"
    by linarith
  then show ?case
  proof cases
    case both
    then have "a_x < x2" using Cons.prems(3) by simp
    with both interp_mono [OF ord(1) ord(2) Cons.prems(3)] x1 Cons.prems(4) r
    show ?thesis by simp
  next
    case split
    have "scan_table ((y0, x0) # r # t) x2 \<le> a_y"
      using interp_bounds(2) [OF split(2) Cons.prems(4) ord(2)] split(2) Cons.prems(4) r
      by simp
    moreover have "a_y \<le> scan_table ((a_y, a_x) # t) x1"
      using scan_table_inside [OF ord(3) lst split(1)] by simp
    moreover have "scan_table ((y0, x0) # r # t) x1 = scan_table ((a_y, a_x) # t) x1"
      using split(1) r by simp
    ultimately show ?thesis by simp
  next
    case rest
    then have "x1 \<le> a_x" using Cons.prems(3) by simp
    with rest Cons.IH [OF ord(3) lst Cons.prems(3) rest] r show ?thesis by simp
  qed
qed

lemma table_rows: "table = (0, 4095) # tl table" "snd (last table) = 0" "fst (last table) = 0.1"
  by (simp_all add: table_def)

lemma intensity_to_distance_outside:
  "p \<le> 0 \<or> 4095 < p \<Longrightarrow> intensity_to_distance p = 100"
proof (erule disjE)
  assume "p \<le> 0"
  then have "p \<le> snd (last table)" by (simp add: table_rows(2))
  moreover have "table \<noteq> []" by (simp add: table_def)
  ultimately show ?thesis
    unfolding intensity_to_distance_def using table_ordered_table by (intro scan_table_below)
next
  assume "4095 < p"
  moreover have "table_ordered ((0, 4095) # tl table)"
    using table_ordered_table table_rows(1) by simp
  ultimately have "scan_table ((0, 4095) # tl table) p = 100" by (intro scan_table_above)
  then show ?thesis unfolding intensity_to_distance_def using table_rows(1) by simp
qed

lemma intensity_to_distance_inside:
  assumes "0 < p" "p \<le> 4095"
  shows "0 \<le> intensity_to_distance p \<and> intensity_to_distance p \<le> 0.1"
proof -
  have ord: "table_ordered ((0, 4095) # tl table)"
    using table_ordered_table table_rows(1) by simp
  have lst: "snd (last ((0, 4095) # tl table)) < p"
    using assms(1) table_rows(1,2) by simp
  from scan_table_inside [OF ord lst assms(2)] show ?thesis
    unfolding intensity_to_distance_def using table_rows(1,3) by simp
qed

lemma intensity_to_distance_antimono_inside:
  assumes "0 < x1" "x1 \<le> x2" "x2 \<le> 4095"
  shows "intensity_to_distance x2 \<le> intensity_to_distance x1"
proof -
  have ord: "table_ordered ((0, 4095) # tl table)"
    using table_ordered_table table_rows(1) by simp
  have lst: "snd (last ((0, 4095) # tl table)) < x1"
    using assms(1) table_rows(1,2) by simp
  from scan_table_mono [OF ord lst assms(2,3)] show ?thesis
    unfolding intensity_to_distance_def using table_rows(1) by simp
qed

text \<open>In the model the brightest reading, 4095, is the contact distance.\<close>

lemma intensity_to_distance_4095: "intensity_to_distance 4095 = 0"
  by (simp add: intensity_to_distance_def table_def)

subsection \<open>C4: the value at intensity 0 and below\<close>

text \<open>
  C4 as stated says that \<open>intensity_to_distance(0)\<close> is 0. It is not: no pair of rows has
  \<open>a_x < 0\<close>, so the loop ends without a bracketing pair.
\<close>

theorem intensity_to_distance_zero_not_contact: "intensity_to_distance 0 \<noteq> 0"
  by (simp add: intensity_to_distance_def table_def)

text \<open>
  C4, amended: \<open>intensity_to_distance(0)\<close> returns the sentinel 100.0, and so does every
  input strictly below the last breakpoint's intensity (which is 0).
\<close>

theorem intensity_to_distance_sentinel_at_and_below_zero:
  "intensity_to_distance 0 = 100 \<and> (p < 0 \<longrightarrow> intensity_to_distance p = 100)"
  using intensity_to_distance_outside [of 0] intensity_to_distance_outside [of p] by simp

theorem intensity_to_distance_sentinel_witness:
  "intensity_to_distance 0 = 100 \<and> (-1::real) < 0 \<and> intensity_to_distance (-1) = 100"
  using intensity_to_distance_sentinel_at_and_below_zero [of "-1"] by simp

subsection \<open>C8: distance does not increase with intensity\<close>

text \<open>
  C8: for all \<open>x1 \<le> x2\<close> in \<open>[0, 4095]\<close>, \<open>intensity_to_distance x2 \<le> intensity_to_distance x1\<close>.
  The claim allows an exception between the first two breakpoints; none is needed, the
  inequality holds on the whole interval (at \<open>x1 = 0\<close> the value is the sentinel, which is
  above every interpolated distance).
\<close>

theorem intensity_to_distance_non_increasing:
  assumes "0 \<le> x1" "x1 \<le> x2" "x2 \<le> 4095"
  shows "intensity_to_distance x2 \<le> intensity_to_distance x1"
proof (cases "0 < x1")
  case True
  then show ?thesis using assms by (intro intensity_to_distance_antimono_inside)
next
  case False
  then have x1: "intensity_to_distance x1 = 100" by (simp add: intensity_to_distance_outside)
  show ?thesis
  proof (cases "0 < x2")
    case True
    with assms(3) intensity_to_distance_inside [of x2] x1 show ?thesis by simp
  next
    case False
    then show ?thesis using x1 by (simp add: intensity_to_distance_outside)
  qed
qed

theorem intensity_to_distance_non_increasing_witness:
  "(0::real) \<le> 100 \<and> (100::real) \<le> 3000 \<and> (3000::real) \<le> 4095
   \<and> intensity_to_distance 3000 \<le> intensity_to_distance 100"
  using intensity_to_distance_non_increasing [of 100 3000] by simp

subsection \<open>C10: the sentinel or a distance within the table's span\<close>

text \<open>
  C10: for every input, \<open>intensity_to_distance\<close> returns either the sentinel 100.0 or a
  value in \<open>[0, 0.1]\<close>; an input above the first breakpoint's intensity 4095 gets the
  sentinel.
\<close>

theorem intensity_to_distance_range:
  "(intensity_to_distance p = 100 \<or> (0 \<le> intensity_to_distance p \<and> intensity_to_distance p \<le> 0.1))
   \<and> (4095 < p \<longrightarrow> intensity_to_distance p = 100)"
proof (cases "0 < p \<and> p \<le> 4095")
  case True
  then show ?thesis using intensity_to_distance_inside [of p] by simp
next
  case False
  then have "p \<le> 0 \<or> 4095 < p" by linarith
  then show ?thesis by (simp add: intensity_to_distance_outside)
qed

theorem intensity_to_distance_range_witness:
  "(4095::real) < 5000 \<and> intensity_to_distance 5000 = 100"
  using intensity_to_distance_range [of 5000] by simp

section \<open>Properties of the arithmetic of \<open>double\<close>\<close>

subsection \<open>Powers of two\<close>

lemma pow2_powi: "0 \<le> k \<Longrightarrow> (2::real) ^ nat k = 2 powi k"
  by (simp add: power_int_def)

lemma powi_split:
  assumes "e0 \<le> e"
  shows "(2::real) powi e = 2 ^ nat (e - e0) * 2 powi e0"
proof -
  have "(2::real) powi (e - e0 + e0) = 2 powi (e - e0) * 2 powi e0"
    by (rule power_int_add) simp
  moreover have "(2::real) powi (e - e0) = 2 ^ nat (e - e0)"
    using assms by (simp add: pow2_powi)
  ultimately show ?thesis by simp
qed

lemma valof_aligned:
  assumes "e0 \<le> e"
  shows "real_of_int m * 2 powi e = real_of_int (m * 2 ^ nat (e - e0)) * 2 powi e0"
proof -
  have "real_of_int m * 2 powi e = real_of_int m * (2 ^ nat (e - e0) * 2 powi e0)"
    by (simp only: powi_split [OF assms])
  then show ?thesis by simp
qed

subsection \<open>Rounding to the nearest integer\<close>

lemma round_half_even_nearest:
  assumes "0 < y"
  shows "\<bar>real_of_int (round_half_even x y) - real_of_int x / real_of_int y\<bar> \<le> 1 / 2"
proof -
  define n where "n = x div y"
  define r where "r = x mod y"
  have x: "x = n * y + r" by (simp add: n_def r_def)
  have r: "0 \<le> r" "r < y" using assms by (simp_all add: r_def)
  have ypos: "0 < real_of_int y" using assms by simp
  have q: "real_of_int x / real_of_int y = real_of_int n + real_of_int r / real_of_int y"
    using ypos by (simp add: x field_simps)
  have f0: "0 \<le> real_of_int r / real_of_int y" using r ypos by simp
  have f1: "real_of_int r / real_of_int y < 1" using r ypos by simp
  consider (lo) "2 * r < y" | (hi) "y < 2 * r" | (tie) "2 * r = y" by linarith
  then show ?thesis
  proof cases
    case lo
    then have "2 * real_of_int r \<le> real_of_int y" by linarith
    then have "real_of_int r / real_of_int y \<le> 1 / 2"
      using ypos by (simp add: field_simps)
    moreover have "round_half_even x y = n"
      using lo by (simp add: round_half_even_def Let_def n_def r_def)
    ultimately show ?thesis using f0 by (simp add: q)
  next
    case hi
    then have "real_of_int y \<le> 2 * real_of_int r" by linarith
    then have "1 / 2 \<le> real_of_int r / real_of_int y"
      using ypos by (simp add: field_simps)
    moreover have "round_half_even x y = n + 1"
      using hi by (simp add: round_half_even_def Let_def n_def r_def)
    ultimately show ?thesis using f1 by (simp add: q)
  next
    case tie
    then have "real_of_int y = 2 * real_of_int r" by linarith
    then have h: "real_of_int r / real_of_int y = 1 / 2"
      using ypos by (simp add: field_simps)
    have "round_half_even x y = n \<or> round_half_even x y = n + 1"
      using tie by (simp add: round_half_even_def Let_def n_def r_def)
    then show ?thesis by (auto simp add: q h)
  qed
qed

lemma round_half_even_tie:
  assumes "0 < y"
    and "\<bar>real_of_int (round_half_even x y) - real_of_int x / real_of_int y\<bar> = 1 / 2"
  shows "even (round_half_even x y)"
proof -
  define n where "n = x div y"
  define r where "r = x mod y"
  have x: "x = n * y + r" by (simp add: n_def r_def)
  have r: "0 \<le> r" "r < y" using assms(1) by (simp_all add: r_def)
  have ypos: "0 < real_of_int y" using assms(1) by simp
  have q: "real_of_int x / real_of_int y = real_of_int n + real_of_int r / real_of_int y"
    using ypos by (simp add: x field_simps)
  have f0: "0 \<le> real_of_int r / real_of_int y" using r ypos by simp
  have f1: "real_of_int r / real_of_int y < 1" using r ypos by simp
  consider (lo) "2 * r < y" | (hi) "y < 2 * r" | (tie) "2 * r = y" by linarith
  then show ?thesis
  proof cases
    case lo
    then have "2 * real_of_int r < real_of_int y" by linarith
    then have "real_of_int r / real_of_int y < 1 / 2"
      using ypos by (simp add: field_simps)
    moreover have e: "round_half_even x y = n"
      using lo by (simp add: round_half_even_def Let_def n_def r_def)
    moreover have "\<bar>real_of_int n - real_of_int x / real_of_int y\<bar> = real_of_int r / real_of_int y"
      using f0 unfolding q by linarith
    moreover have "\<bar>real_of_int n - real_of_int x / real_of_int y\<bar> = 1 / 2"
      using assms(2) by (simp only: e)
    ultimately have False by linarith
    then show ?thesis ..
  next
    case hi
    then have "real_of_int y < 2 * real_of_int r" by linarith
    then have "1 / 2 < real_of_int r / real_of_int y"
      using ypos by (simp add: field_simps)
    moreover have e: "round_half_even x y = n + 1"
      using hi by (simp add: round_half_even_def Let_def n_def r_def)
    moreover have "\<bar>real_of_int (n + 1) - real_of_int x / real_of_int y\<bar>
                     = 1 - real_of_int r / real_of_int y"
      using f1 unfolding q by simp
    moreover have "\<bar>real_of_int (n + 1) - real_of_int x / real_of_int y\<bar> = 1 / 2"
      using assms(2) by (simp only: e)
    ultimately have False by linarith
    then show ?thesis ..
  next
    case tie
    then show ?thesis by (simp add: round_half_even_def Let_def n_def r_def)
  qed
qed

lemma round_half_even_nonneg:
  assumes "0 < y" "0 \<le> x"
  shows "0 \<le> round_half_even x y"
proof -
  have "0 \<le> x div y" using assms by (simp add: pos_imp_zdiv_nonneg_iff)
  then show ?thesis by (simp add: round_half_even_def Let_def)
qed

text \<open>Scaling by a power of two, as the rounding does it.\<close>

lemma scaled_quotient:
  assumes "0 < q"
  shows "k \<le> s \<Longrightarrow> real_of_int (a * 2 ^ nat (s - k)) / real_of_int q
                     = (real_of_int a * 2 powi s / real_of_int q) / 2 powi k"
    and "\<not> k \<le> s \<Longrightarrow> real_of_int a / real_of_int (q * 2 ^ nat (k - s))
                     = (real_of_int a * 2 powi s / real_of_int q) / 2 powi k"
proof -
  have split: "(2::real) powi s = 2 powi (s - k) * 2 powi k"
    using power_int_add [of "2::real" "s - k" k] by simp
  {
    assume "k \<le> s"
    then have "(2::real) ^ nat (s - k) = 2 powi (s - k)" by (simp add: power_int_def)
    then show "real_of_int (a * 2 ^ nat (s - k)) / real_of_int q
                     = (real_of_int a * 2 powi s / real_of_int q) / 2 powi k"
      by (simp add: split)
  next
    assume "\<not> k \<le> s"
    then have "(2::real) ^ nat (k - s) = 2 powi (k - s)" by (simp add: power_int_def)
    moreover have "(2::real) powi (k - s) * 2 powi (s - k) = 1"
      using power_int_add [of "2::real" "k - s" "s - k"] by simp
    ultimately show "real_of_int a / real_of_int (q * 2 ^ nat (k - s))
                     = (real_of_int a * 2 powi s / real_of_int q) / 2 powi k"
      using assms by (simp add: split field_simps)
  }
qed

subsection \<open>The binary exponent\<close>

lemma exponent_test:
  assumes "0 < q"
  shows "(if 0 \<le> d then q * 2 ^ nat d \<le> a else q \<le> a * 2 ^ nat (- d))
           \<longleftrightarrow> 2 powi d \<le> real_of_int a / real_of_int q"
proof (cases "0 \<le> d")
  case True
  then have p: "(2::real) powi d = real_of_int (2 ^ nat d)" by (simp add: power_int_def)
  have "q * 2 ^ nat d \<le> a \<longleftrightarrow> real_of_int (q * 2 ^ nat d) \<le> real_of_int a"
    by (simp only: of_int_le_iff)
  also have "\<dots> \<longleftrightarrow> 2 powi d \<le> real_of_int a / real_of_int q"
    using assms by (simp add: p field_simps)
  finally show ?thesis using True by simp
next
  case False
  then have p: "(2::real) powi d = 1 / real_of_int (2 ^ nat (- d))"
    by (simp add: power_int_def field_simps)
  have "q \<le> a * 2 ^ nat (- d) \<longleftrightarrow> real_of_int q \<le> real_of_int (a * 2 ^ nat (- d))"
    by (simp only: of_int_le_iff)
  also have "\<dots> \<longleftrightarrow> 2 powi d \<le> real_of_int a / real_of_int q"
    using assms by (simp add: p field_simps)
  finally show ?thesis using False by simp
qed

lemma bitlen_quotient:
  assumes "0 < a" "0 < q"
  shows "2 powi (bitlen a - bitlen q - 1) \<le> real_of_int a / real_of_int q"
    and "real_of_int a / real_of_int q < 2 powi (bitlen a - bitlen q + 1)"
proof -
  have la: "1 \<le> bitlen a" using assms(1) by (simp add: bitlen_alt_def)
  have lq: "1 \<le> bitlen q" using assms(2) by (simp add: bitlen_alt_def)
  have a1: "(2::real) powi (bitlen a - 1) \<le> real_of_int a"
  proof -
    have "2 ^ nat (bitlen a - 1) \<le> a" using bitlen_bounds [OF assms(1)] ..
    then have "real_of_int (2 ^ nat (bitlen a - 1)) \<le> real_of_int a" by (simp only: of_int_le_iff)
    then show ?thesis using la by (simp add: power_int_def)
  qed
  have a2: "real_of_int a < 2 powi (bitlen a)"
  proof -
    have "a < 2 ^ nat (bitlen a)" using bitlen_bounds [OF assms(1)] ..
    then have "real_of_int a < real_of_int (2 ^ nat (bitlen a))" by (simp only: of_int_less_iff)
    then show ?thesis using la by (simp add: power_int_def)
  qed
  have q1: "(2::real) powi (bitlen q - 1) \<le> real_of_int q"
  proof -
    have "2 ^ nat (bitlen q - 1) \<le> q" using bitlen_bounds [OF assms(2)] ..
    then have "real_of_int (2 ^ nat (bitlen q - 1)) \<le> real_of_int q" by (simp only: of_int_le_iff)
    then show ?thesis using lq by (simp add: power_int_def)
  qed
  have q2: "real_of_int q < 2 powi (bitlen q)"
  proof -
    have "q < 2 ^ nat (bitlen q)" using bitlen_bounds [OF assms(2)] ..
    then have "real_of_int q < real_of_int (2 ^ nat (bitlen q))" by (simp only: of_int_less_iff)
    then show ?thesis using lq by (simp add: power_int_def)
  qed
  have qpos: "0 < real_of_int q" using assms(2) by simp
  have apos: "0 < real_of_int a" using assms(1) by simp
  have e1: "(2::real) powi (bitlen a - bitlen q - 1) * 2 powi (bitlen q) = 2 powi (bitlen a - 1)"
    using power_int_add [of "2::real" "bitlen a - bitlen q - 1" "bitlen q"] by simp
  have e2: "(2::real) powi (bitlen a - bitlen q + 1) * 2 powi (bitlen q - 1) = 2 powi (bitlen a)"
    using power_int_add [of "2::real" "bitlen a - bitlen q + 1" "bitlen q - 1"] by simp
  have "2 powi (bitlen a - bitlen q - 1) * real_of_int q
          \<le> 2 powi (bitlen a - bitlen q - 1) * 2 powi (bitlen q)"
    using q2 by (intro mult_left_mono) simp_all
  also have "\<dots> \<le> real_of_int a" using a1 by (simp only: e1)
  finally show "2 powi (bitlen a - bitlen q - 1) \<le> real_of_int a / real_of_int q"
    using qpos by (simp add: field_simps)
  have "real_of_int a < 2 powi (bitlen a)" by (rule a2)
  also have "\<dots> = 2 powi (bitlen a - bitlen q + 1) * 2 powi (bitlen q - 1)" by (simp only: e2)
  also have "\<dots> \<le> 2 powi (bitlen a - bitlen q + 1) * real_of_int q"
    using q1 by (intro mult_left_mono) simp_all
  finally show "real_of_int a / real_of_int q < 2 powi (bitlen a - bitlen q + 1)"
    using qpos by (simp add: field_simps)
qed

lemma exponent_bounds:
  assumes "0 < a" "0 < q"
  defines "d \<equiv> bitlen a - bitlen q"
  defines "E0 \<equiv> (if (if 0 \<le> d then q * 2 ^ nat d \<le> a else q \<le> a * 2 ^ nat (- d)) then d else d - 1)"
  shows "2 powi E0 \<le> real_of_int a / real_of_int q"
    and "real_of_int a / real_of_int q < 2 powi (E0 + 1)"
proof -
  note t = exponent_test [OF assms(2), of d a]
  note b = bitlen_quotient [OF assms(1,2), folded d_def]
  show "2 powi E0 \<le> real_of_int a / real_of_int q"
    using t b(1) by (auto simp add: E0_def)
  show "real_of_int a / real_of_int q < 2 powi (E0 + 1)"
    using t b(2) by (auto simp add: E0_def)
qed

subsection \<open>\<open>round64\<close> rounds to the nearest binary64 value\<close>

lemma round64_structure:
  fixes p q s :: int
  assumes "0 < q" "p \<noteq> 0"
  defines "w \<equiv> real_of_int \<bar>p\<bar> * 2 powi s / real_of_int q"
  obtains E n k where
    "2 powi E \<le> w" "w < 2 powi (E + 1)"
    "k = max E (- 1022) - 52"
    "0 \<le> n" "\<bar>real_of_int n - w / 2 powi k\<bar> \<le> 1 / 2"
    "\<bar>real_of_int n - w / 2 powi k\<bar> = 1 / 2 \<longrightarrow> even n"
    "round64 p q s =
       (if 971 < k \<or> (k = 971 \<and> 2 ^ 53 \<le> n)
        then (if 0 < p then PosInf else NegInf)
        else Dbl (if 0 < p then n else - n) k)"
proof -
  define a where "a = \<bar>p\<bar>"
  define d where "d = bitlen a - bitlen q"
  define E0 where
    "E0 = (if (if 0 \<le> d then q * 2 ^ nat d \<le> a else q \<le> a * 2 ^ nat (- d)) then d else d - 1)"
  define k where "k = max (E0 + s) (- 1022) - 52"
  define n where "n = (if k \<le> s then round_half_even (a * 2 ^ nat (s - k)) q
                       else round_half_even a (q * 2 ^ nat (k - s)))"
  have r: "round64 p q s =
             (if 971 < k \<or> (k = 971 \<and> 2 ^ 53 \<le> n)
              then (if 0 < p then PosInf else NegInf)
              else Dbl (if 0 < p then n else - n) k)"
    using assms(2) unfolding round64_def Let_def a_def d_def E0_def k_def n_def by simp
  have apos: "0 < a" using assms(2) by (simp add: a_def)
  note eb = exponent_bounds [OF apos assms(1), folded d_def, folded E0_def]
  have w: "w = real_of_int a / real_of_int q * 2 powi s" by (simp add: w_def a_def)
  have wl: "2 powi (E0 + s) \<le> w"
  proof -
    have "2 powi E0 * 2 powi s \<le> (real_of_int a / real_of_int q) * 2 powi s"
      using eb(1) by (intro mult_right_mono) simp_all
    moreover have "(2::real) powi (E0 + s) = 2 powi E0 * 2 powi s"
      by (rule power_int_add) simp
    ultimately show ?thesis by (simp add: w)
  qed
  have wh: "w < 2 powi (E0 + s + 1)"
  proof -
    have "(real_of_int a / real_of_int q) * 2 powi s < 2 powi (E0 + 1) * 2 powi s"
      using eb(2) by (intro mult_strict_right_mono) simp_all
    moreover have "(2::real) powi (E0 + 1 + s) = 2 powi (E0 + 1) * 2 powi s"
      by (rule power_int_add) simp
    ultimately show ?thesis by (simp add: w add.commute add.left_commute)
  qed
  have near: "\<bar>real_of_int n - w / 2 powi k\<bar> \<le> 1 / 2"
  proof (cases "k \<le> s")
    case True
    then have "n = round_half_even (a * 2 ^ nat (s - k)) q" by (simp add: n_def)
    with round_half_even_nearest [OF assms(1), of "a * 2 ^ nat (s - k)"]
    show ?thesis by (simp only: scaled_quotient(1) [OF assms(1) True] w_def a_def)
  next
    case False
    then have "n = round_half_even a (q * 2 ^ nat (k - s))" by (simp add: n_def)
    moreover have "0 < q * 2 ^ nat (k - s)" using assms(1) by simp
    ultimately show ?thesis
      using round_half_even_nearest [of "q * 2 ^ nat (k - s)" a]
      by (simp only: scaled_quotient(2) [OF assms(1) False] w_def a_def)
  qed
  have tie: "\<bar>real_of_int n - w / 2 powi k\<bar> = 1 / 2 \<longrightarrow> even n"
  proof (cases "k \<le> s")
    case True
    then have "n = round_half_even (a * 2 ^ nat (s - k)) q" by (simp add: n_def)
    with round_half_even_tie [OF assms(1), of "a * 2 ^ nat (s - k)"]
    show ?thesis by (simp only: scaled_quotient(1) [OF assms(1) True] w_def a_def) blast
  next
    case False
    then have "n = round_half_even a (q * 2 ^ nat (k - s))" by (simp add: n_def)
    moreover have "0 < q * 2 ^ nat (k - s)" using assms(1) by simp
    ultimately show ?thesis
      using round_half_even_tie [of "q * 2 ^ nat (k - s)" a]
      by (simp only: scaled_quotient(2) [OF assms(1) False] w_def a_def) blast
  qed
  have nn: "0 \<le> n"
    using assms(1) apos by (simp add: n_def round_half_even_nonneg)
  from wl wh k_def nn near tie r show thesis by (rule that)
qed

text \<open>
  What \<open>round64\<close> returns when the result is finite: a multiple of \<open>2 ^ k\<close> that is at most
  half of \<open>2 ^ k\<close> away from the exact number, with at most 53 significant bits, where
  \<open>k\<close> is the exponent of the binary64 format for a number of that size.
\<close>

lemma round64_correct:
  fixes p q s :: int
  assumes "0 < q" "p \<noteq> 0" "round64 p q s = Dbl m k"
  defines "v \<equiv> real_of_int p * 2 powi s / real_of_int q"
  shows "\<bar>real_of_int m * 2 powi k - v\<bar> \<le> 2 powi k / 2"
    and "- 1074 \<le> k" and "k \<le> 971"
    and "\<bar>m\<bar> \<le> 2 ^ 53" and "k = 971 \<longrightarrow> \<bar>m\<bar> < 2 ^ 53"
    and "k = - 1074 \<or> 2 powi (k + 52) \<le> \<bar>v\<bar>" and "\<bar>v\<bar> < 2 powi (k + 53)"
    and "\<bar>real_of_int m * 2 powi k - v\<bar> = 2 powi k / 2 \<longrightarrow> even m"
proof -
  define w where "w = real_of_int \<bar>p\<bar> * 2 powi s / real_of_int q"
  from assms(1,2) obtain E n k' where
    wl: "2 powi E \<le> w" and wh: "w < 2 powi (E + 1)" and
    k': "k' = max E (- 1022) - 52" and
    nn: "0 \<le> n" and near': "\<bar>real_of_int n - w / 2 powi k'\<bar> \<le> 1 / 2" and
    tie': "\<bar>real_of_int n - w / 2 powi k'\<bar> = 1 / 2 \<longrightarrow> even n" and
    r: "round64 p q s =
          (if 971 < k' \<or> (k' = 971 \<and> 2 ^ 53 \<le> n)
           then (if 0 < p then PosInf else NegInf)
           else Dbl (if 0 < p then n else - n) k')"
    unfolding w_def by (rule round64_structure)
  have nov': "\<not> (971 < k' \<or> (k' = 971 \<and> 2 ^ 53 \<le> n))"
    using assms(3) unfolding r by (auto split: if_splits)
  with assms(3) have m: "m = (if 0 < p then n else - n)" and kk: "k = k'"
    unfolding r by (simp_all split: if_splits)
  note k = k' [folded kk] and near = near' [folded kk] and nov = nov' [folded kk]
    and tie = tie' [folded kk]
  have qpos: "0 < real_of_int q" using assms(1) by simp
  have w_abs: "w = \<bar>v\<bar>"
    using qpos by (simp add: w_def v_def abs_mult abs_divide)
  have kpos: "(0::real) < 2 powi k" by simp
  have scaled: "\<bar>real_of_int n * 2 powi k - w\<bar> = \<bar>real_of_int n - w / 2 powi k\<bar> * 2 powi k"
  proof -
    have "real_of_int n * 2 powi k - w = (real_of_int n - w / 2 powi k) * 2 powi k"
      by (simp add: field_simps)
    then show ?thesis by (simp add: abs_mult)
  qed
  have "\<bar>real_of_int n - w / 2 powi k\<bar> * 2 powi k \<le> 1 / 2 * 2 powi k"
    using near by (intro mult_right_mono) simp_all
  with scaled have err: "\<bar>real_of_int n * 2 powi k - w\<bar> \<le> 2 powi k / 2" by simp
  have mw: "\<bar>real_of_int m * 2 powi k - v\<bar> = \<bar>real_of_int n * 2 powi k - w\<bar>"
  proof (cases "0 < p")
    case True
    then have "w = v" using qpos by (simp add: w_def v_def)
    with True show ?thesis by (simp add: m)
  next
    case False
    then have "w = - v" using qpos by (simp add: w_def v_def)
    moreover have "\<bar>real_of_int (- n) * 2 powi k - v\<bar> = \<bar>real_of_int n * 2 powi k - (- v)\<bar>"
      by (simp add: abs_minus_commute)
    ultimately show ?thesis using False by (simp add: m)
  qed
  show "\<bar>real_of_int m * 2 powi k - v\<bar> = 2 powi k / 2 \<longrightarrow> even m"
  proof
    assume "\<bar>real_of_int m * 2 powi k - v\<bar> = 2 powi k / 2"
    then have "\<bar>real_of_int n - w / 2 powi k\<bar> * 2 powi k = 1 / 2 * 2 powi k"
      by (simp add: mw scaled)
    then have "\<bar>real_of_int n - w / 2 powi k\<bar> = 1 / 2"
      using kpos by simp
    with tie have "even n" by blast
    then show "even m" by (simp add: m)
  qed
  show "\<bar>real_of_int m * 2 powi k - v\<bar> \<le> 2 powi k / 2"
  proof (cases "0 < p")
    case True
    then have "w = v" using qpos by (simp add: w_def v_def)
    with err True show ?thesis by (simp add: m)
  next
    case False
    then have "w = - v" using qpos by (simp add: w_def v_def)
    moreover have "\<bar>real_of_int (- n) * 2 powi k - v\<bar> = \<bar>real_of_int n * 2 powi k - (- v)\<bar>"
      by (simp add: abs_minus_commute)
    ultimately show ?thesis using err False by (simp add: m)
  qed
  show "- 1074 \<le> k" by (simp add: k)
  show "k \<le> 971" using nov by simp
  have wk53: "w < 2 powi (k + 53)"
  proof -
    have "E + 1 \<le> k + 53" by (simp add: k)
    then have "(2::real) powi (E + 1) \<le> 2 powi (k + 53)"
      by (intro power_int_increasing) simp_all
    with wh show ?thesis by simp
  qed
  have wk: "w / 2 powi k < 2 ^ 53"
  proof -
    have "(2::real) powi (k + 53) = 2 powi k * 2 ^ 53"
      using power_int_add [of "2::real" k 53] by simp
    with wk53 show ?thesis using kpos by (simp add: field_simps)
  qed
  have "real_of_int n \<le> w / 2 powi k + 1 / 2" using near by linarith
  with wk have "real_of_int n < 2 ^ 53 + 1 / 2" by linarith
  then have "real_of_int n < real_of_int (2 ^ 53 + 1)" by simp
  then have "n < 2 ^ 53 + 1" by (simp only: of_int_less_iff)
  then have n53: "n \<le> 2 ^ 53" by simp
  show "\<bar>m\<bar> \<le> 2 ^ 53" using n53 nn by (simp add: m)
  show "k = 971 \<longrightarrow> \<bar>m\<bar> < 2 ^ 53" using nov nn by (auto simp add: m)
  show "k = - 1074 \<or> 2 powi (k + 52) \<le> \<bar>v\<bar>"
  proof (cases "- 1022 \<le> E")
    case True
    then have "k + 52 = E" by (simp add: k)
    with wl show ?thesis by (simp add: w_abs)
  next
    case False
    then show ?thesis by (simp add: k)
  qed
  show "\<bar>v\<bar> < 2 powi (k + 53)" using wk53 by (simp add: w_abs)
qed

text \<open>An infinite result stands for a number of magnitude \<open>2 ^ 1024 - 2 ^ 970\<close> or more.\<close>

lemma round64_overflow:
  assumes "0 < q" "round64 p q s = PosInf \<or> round64 p q s = NegInf"
  shows "2 powi 1024 - 2 powi 970 \<le> \<bar>real_of_int p * 2 powi s / real_of_int q\<bar>"
    and "round64 p q s = PosInf \<longleftrightarrow> 0 < p"
proof -
  have p: "p \<noteq> 0" using assms(2) by (auto simp add: round64_def)
  define w where "w = real_of_int \<bar>p\<bar> * 2 powi s / real_of_int q"
  from assms(1) p obtain E n k where
    wl: "2 powi E \<le> w" and
    k: "k = max E (- 1022) - 52" and
    near: "\<bar>real_of_int n - w / 2 powi k\<bar> \<le> 1 / 2" and
    r: "round64 p q s =
          (if 971 < k \<or> (k = 971 \<and> 2 ^ 53 \<le> n)
           then (if 0 < p then PosInf else NegInf)
           else Dbl (if 0 < p then n else - n) k)"
    unfolding w_def by (rule round64_structure)
  have ov: "971 < k \<or> (k = 971 \<and> 2 ^ 53 \<le> n)"
    using assms(2) unfolding r by (auto split: if_splits)
  show "round64 p q s = PosInf \<longleftrightarrow> 0 < p" using ov unfolding r by simp
  have qpos: "0 < real_of_int q" using assms(1) by simp
  have w_abs: "w = \<bar>real_of_int p * 2 powi s / real_of_int q\<bar>"
    using qpos by (simp add: w_def abs_mult abs_divide)
  have "2 powi 1024 - 2 powi 970 \<le> w"
  proof (cases "971 < k")
    case True
    then have "1024 \<le> E" by (simp add: k)
    then have "(2::real) powi 1024 \<le> 2 powi E" by (intro power_int_increasing) simp_all
    moreover have "(0::real) \<le> 2 powi 970" by simp
    ultimately show ?thesis using wl by linarith
  next
    case False
    with ov have k971: "k = 971" and n: "2 ^ 53 \<le> n" by simp_all
    have kpos: "(0::real) < 2 powi k" by simp
    from n have "real_of_int (2 ^ 53) \<le> real_of_int n" by (simp only: of_int_le_iff)
    then have "2 ^ 53 \<le> real_of_int n" by simp
    moreover have "real_of_int n - 1 / 2 \<le> w / 2 powi k" using near by linarith
    ultimately have "2 ^ 53 - 1 / 2 \<le> w / 2 powi k" by linarith
    then have "(2 ^ 53 - 1 / 2) * 2 powi k \<le> w"
      using kpos by (simp only: pos_le_divide_eq)
    moreover have "((2::real) ^ 53 - 1 / 2) * 2 powi k = 2 powi (k + 53) - 2 powi (k - 1)"
    proof -
      have "(2::real) powi (k + 53) = 2 powi k * 2 powi 53"
        by (rule power_int_add) simp
      moreover have "(2::real) powi (k - 1 + 1) = 2 powi (k - 1) * 2 powi 1"
        by (rule power_int_add) simp
      ultimately show ?thesis by (simp add: algebra_simps)
    qed
    moreover have "k + 53 = 1024" "k - 1 = 970" by (simp_all add: k971)
    ultimately have "2 powi 1024 - 2 powi 970 \<le> w" by (simp only:)
    then show ?thesis .
  qed
  then show "2 powi 1024 - 2 powi 970 \<le> \<bar>real_of_int p * 2 powi s / real_of_int q\<bar>"
    by (simp add: w_abs)
qed

lemma round64_nearest:
  fixes p q s :: int
  assumes "0 < q" "round64 p q s = Dbl m k"
  shows "\<bar>real_of_int m * 2 powi k - real_of_int p * 2 powi s / real_of_int q\<bar> \<le> 2 powi k / 2"
proof (cases "p = 0")
  case True
  with assms(2) have "m = 0" by (simp add: round64_def)
  with True show ?thesis by simp
next
  case False
  show ?thesis by (rule round64_correct(1) [OF assms(1) False assms(2)])
qed

text \<open>
  Each operation on finite operands with a finite result returns a value that is at
  most half a unit of its last place away from the exact result.
\<close>

lemma dmul_nearest:
  assumes "dmul (Dbl m1 e1) (Dbl m2 e2) = Dbl m k"
  shows "\<bar>real_of_int m * 2 powi k
           - (real_of_int m1 * 2 powi e1) * (real_of_int m2 * 2 powi e2)\<bar> \<le> 2 powi k / 2"
proof -
  have "(2::real) powi (e1 + e2) = 2 powi e1 * 2 powi e2" by (rule power_int_add) simp
  then have ex: "real_of_int (m1 * m2) * 2 powi (e1 + e2) / real_of_int 1
               = (real_of_int m1 * 2 powi e1) * (real_of_int m2 * 2 powi e2)"
    by simp
  have r: "round64 (m1 * m2) 1 (e1 + e2) = Dbl m k" using assms by simp
  show ?thesis using round64_nearest [OF zero_less_one r] by (simp only: ex)
qed

lemma dadd_nearest:
  assumes "dadd (Dbl m1 e1) (Dbl m2 e2) = Dbl m k"
  shows "\<bar>real_of_int m * 2 powi k
           - (real_of_int m1 * 2 powi e1 + real_of_int m2 * 2 powi e2)\<bar> \<le> 2 powi k / 2"
proof -
  define e where "e = min e1 e2"
  have v1: "real_of_int m1 * 2 powi e1 = real_of_int (m1 * 2 ^ nat (e1 - e)) * 2 powi e"
    by (rule valof_aligned) (simp add: e_def)
  have v2: "real_of_int m2 * 2 powi e2 = real_of_int (m2 * 2 ^ nat (e2 - e)) * 2 powi e"
    by (rule valof_aligned) (simp add: e_def)
  have ex: "real_of_int (m1 * 2 ^ nat (e1 - e) + m2 * 2 ^ nat (e2 - e)) * 2 powi e / real_of_int 1
          = real_of_int m1 * 2 powi e1 + real_of_int m2 * 2 powi e2"
    unfolding v1 v2 by (simp add: algebra_simps)
  have r: "round64 (m1 * 2 ^ nat (e1 - e) + m2 * 2 ^ nat (e2 - e)) 1 e = Dbl m k"
    using assms by (simp add: e_def)
  show ?thesis using round64_nearest [OF zero_less_one r] by (simp only: ex)
qed

lemma dsub_nearest:
  assumes "dsub (Dbl m1 e1) (Dbl m2 e2) = Dbl m k"
  shows "\<bar>real_of_int m * 2 powi k
           - (real_of_int m1 * 2 powi e1 - real_of_int m2 * 2 powi e2)\<bar> \<le> 2 powi k / 2"
proof -
  have "dadd (Dbl m1 e1) (Dbl (- m2) e2) = Dbl m k" using assms by (simp add: dsub_def)
  from dadd_nearest [OF this] show ?thesis by simp
qed

lemma ddiv_nearest:
  assumes "ddiv (Dbl m1 e1) (Dbl m2 e2) = Dbl m k" "m2 \<noteq> 0"
  shows "\<bar>real_of_int m * 2 powi k
           - (real_of_int m1 * 2 powi e1) / (real_of_int m2 * 2 powi e2)\<bar> \<le> 2 powi k / 2"
proof -
  have "(2::real) powi (e1 - e2 + e2) = 2 powi (e1 - e2) * 2 powi e2"
    by (rule power_int_add) simp
  then have sp: "(2::real) powi e1 = 2 powi (e1 - e2) * 2 powi e2" by simp
  have ex: "(real_of_int m1 * 2 powi e1) / (real_of_int m2 * 2 powi e2)
              = real_of_int m1 * 2 powi (e1 - e2) / real_of_int m2"
    by (simp add: sp)
  show ?thesis
  proof (cases "0 < m2")
    case True
    then have "round64 m1 m2 (e1 - e2) = Dbl m k" using assms by simp
    from round64_nearest [OF True this] show ?thesis by (simp only: ex)
  next
    case False
    then have neg: "0 < - m2" using assms(2) by simp
    have "round64 (- m1) (- m2) (e1 - e2) = Dbl m k" using assms False by simp
    from round64_nearest [OF neg this] show ?thesis by (simp add: ex)
  qed
qed

section \<open>Properties of the kinematics\<close>

subsection \<open>Comparison, clipping and conversion in terms of the value\<close>

lemma dless_Dbl:
  "dless (Dbl m1 e1) (Dbl m2 e2) \<longleftrightarrow> real_of_int m1 * 2 powi e1 < real_of_int m2 * 2 powi e2"
proof -
  define e where "e = min e1 e2"
  define a1 where "a1 = m1 * 2 ^ nat (e1 - e)"
  define a2 where "a2 = m2 * 2 ^ nat (e2 - e)"
  have v1: "real_of_int m1 * 2 powi e1 = real_of_int a1 * 2 powi e"
    unfolding a1_def by (rule valof_aligned) (simp add: e_def)
  have v2: "real_of_int m2 * 2 powi e2 = real_of_int a2 * 2 powi e"
    unfolding a2_def by (rule valof_aligned) (simp add: e_def)
  have pos: "(0::real) < 2 powi e" by simp
  have "real_of_int a1 * 2 powi e < real_of_int a2 * 2 powi e \<longleftrightarrow> real_of_int a1 < real_of_int a2"
    using pos by (rule mult_less_cancel_right_pos)
  also have "\<dots> \<longleftrightarrow> a1 < a2" by (rule of_int_less_iff)
  finally have "real_of_int m1 * 2 powi e1 < real_of_int m2 * 2 powi e2 \<longleftrightarrow> a1 < a2"
    unfolding v1 v2 .
  moreover have "dless (Dbl m1 e1) (Dbl m2 e2) \<longleftrightarrow> a1 < a2"
    by (simp add: a1_def a2_def e_def)
  ultimately show ?thesis by simp
qed

lemma double_to_int_Dbl:
  "double_to_int (Dbl m e) =
     (if 0 \<le> real_of_int m * 2 powi e then \<lfloor>real_of_int m * 2 powi e\<rfloor>
      else \<lceil>real_of_int m * 2 powi e\<rceil>)"
proof (cases "0 \<le> e")
  case True
  define a where "a = m * 2 ^ nat e"
  have v: "real_of_int m * 2 powi e = real_of_int a"
    using True by (simp add: a_def power_int_def)
  have "double_to_int (Dbl m e) = a" using True by (simp add: a_def)
  then show ?thesis unfolding v by (simp only: floor_of_int ceiling_of_int if_cancel)
next
  case False
  define b :: int where "b = 2 ^ nat (- e)"
  have b: "0 < b" by (simp add: b_def)
  have v: "real_of_int m * 2 powi e = real_of_int m / real_of_int b"
    using False by (simp add: b_def power_int_def field_simps)
  have sgn: "0 \<le> real_of_int m / real_of_int b \<longleftrightarrow> 0 \<le> m"
    using b by (simp add: zero_le_divide_iff)
  show ?thesis
  proof (cases "0 \<le> m")
    case True
    have "\<lfloor>real_of_int m / real_of_int b\<rfloor> = m div b"
      by (rule floor_divide_of_int_eq)
    moreover have "double_to_int (Dbl m e) = m div b"
      using True False by (simp add: b_def)
    ultimately show ?thesis unfolding v using sgn True by simp
  next
    case nonpos: False
    have "\<lceil>real_of_int m / real_of_int b\<rceil> = - \<lfloor>real_of_int (- m) / real_of_int b\<rfloor>"
      by (simp add: ceiling_def)
    also have "\<dots> = - ((- m) div b)"
      by (simp only: floor_divide_of_int_eq)
    finally have "\<lceil>real_of_int m / real_of_int b\<rceil> = - ((- m) div b)" .
    moreover have "double_to_int (Dbl m e) = - ((- m) div b)"
      using nonpos False by (simp add: b_def)
    ultimately show ?thesis unfolding v using sgn nonpos by simp
  qed
qed

lemma double_of_int_1108:
  "double_of_int 1108 = Dbl 4873035534303232 (- 42)"
  "double_of_int (- 1108) = Dbl (- 4873035534303232) (- 42)"
  by code_simp+

lemma valof_1108: "real_of_int 4873035534303232 * 2 powi (- 42) = 1108"
  by (simp add: power_int_def power_one_over)

lemma dless_1108:
  "dless (double_of_int 1108) (Dbl m e) \<longleftrightarrow> 1108 < real_of_int m * 2 powi e"
  "dless (double_of_int (- 1108)) (Dbl m e) \<longleftrightarrow> - 1108 < real_of_int m * 2 powi e"
  "dless (double_of_int (- 1108)) (double_of_int 1108)"
  using valof_1108 by (simp_all add: double_of_int_1108 dless_Dbl del: dless.simps)

lemma CLIP_Dbl:
  "CLIP (Dbl m e) (double_of_int (- 1108)) (double_of_int 1108) =
     (if 1108 < real_of_int m * 2 powi e then double_of_int 1108
      else if - 1108 < real_of_int m * 2 powi e then Dbl m e
      else double_of_int (- 1108))"
  by (simp add: CLIP_def min_macro_def max_macro_def dless_1108 del: dless.simps)

lemma CLIP_special:
  "CLIP PosInf (double_of_int (- 1108)) (double_of_int 1108) = double_of_int 1108"
  "CLIP NegInf (double_of_int (- 1108)) (double_of_int 1108) = double_of_int (- 1108)"
  "CLIP NaN (double_of_int (- 1108)) (double_of_int 1108) = double_of_int (- 1108)"
  by (simp_all add: CLIP_def min_macro_def max_macro_def double_of_int_1108)

lemma double_to_int_1108:
  "double_to_int (double_of_int 1108) = 1108" "double_to_int (double_of_int (- 1108)) = - 1108"
  by code_simp+

lemma clipped_Dbl:
  "double_to_int (CLIP (Dbl m e) (double_of_int (- 1108)) (double_of_int 1108)) =
     (let c = max (- 1108) (min 1108 (real_of_int m * 2 powi e))
      in if 0 \<le> c then \<lfloor>c\<rfloor> else \<lceil>c\<rceil>)"
proof -
  let ?v = "real_of_int m * 2 powi e"
  consider (hi) "1108 < ?v" | (mid) "- 1108 < ?v" "?v \<le> 1108" | (lo) "?v \<le> - 1108"
    by linarith
  then show ?thesis
  proof cases
    case hi
    then show ?thesis
      by (simp add: CLIP_Dbl double_to_int_1108 del: double_to_int.simps)
  next
    case mid
    then have "max (- 1108) (min 1108 ?v) = ?v" by simp
    with mid show ?thesis
      by (simp add: CLIP_Dbl double_to_int_Dbl Let_def del: double_to_int.simps)
  next
    case lo
    then have "max (- 1108) (min 1108 ?v) = - 1108" by simp
    with lo show ?thesis
      by (simp add: CLIP_Dbl double_to_int_1108 Let_def del: double_to_int.simps)
  qed
qed

lemma clipped_special:
  "double_to_int (CLIP PosInf (double_of_int (- 1108)) (double_of_int 1108)) = 1108"
  "double_to_int (CLIP NegInf (double_of_int (- 1108)) (double_of_int 1108)) = - 1108"
  "double_to_int (CLIP NaN (double_of_int (- 1108)) (double_of_int 1108)) = - 1108"
  by (simp_all add: CLIP_special double_to_int_1108 del: double_to_int.simps)

text \<open>The clipped value is finite, whatever is clipped.\<close>

lemma CLIP_finite:
  "\<exists>m e. CLIP q (double_of_int (- 1108)) (double_of_int 1108) = Dbl m e"
proof (cases q)
  case (Dbl m e)
  show ?thesis unfolding Dbl CLIP_Dbl by (simp add: double_of_int_1108)
next
  case PosInf
  show ?thesis unfolding PosInf CLIP_special by (simp add: double_of_int_1108)
next
  case NegInf
  show ?thesis unfolding NegInf CLIP_special by (simp add: double_of_int_1108)
next
  case NaN
  show ?thesis unfolding NaN CLIP_special by (simp add: double_of_int_1108)
qed

lemma clipped_bounds:
  "- 1108 \<le> double_to_int (CLIP q (double_of_int (- 1108)) (double_of_int 1108))
   \<and> double_to_int (CLIP q (double_of_int (- 1108)) (double_of_int 1108)) \<le> 1108"
proof (cases q)
  case (Dbl m e)
  let ?c = "max (- 1108) (min 1108 (real_of_int m * 2 powi e))"
  have c: "- 1108 \<le> ?c" "?c \<le> 1108" by simp_all
  show ?thesis
  proof (cases "0 \<le> ?c")
    case True
    then have "0 \<le> \<lfloor>?c\<rfloor>" by simp
    moreover have "\<lfloor>?c\<rfloor> \<le> 1108"
      using c(2) by (simp add: floor_le_iff del: min_less_iff_conj max_less_iff_conj)
    ultimately show ?thesis using True Dbl by (simp add: clipped_Dbl Let_def)
  next
    case False
    then have "\<lceil>?c\<rceil> \<le> 0" by (simp add: ceiling_le_iff)
    moreover have "- 1108 \<le> \<lceil>?c\<rceil>" using c(1) by (simp add: le_ceiling_iff)
    ultimately show ?thesis using False Dbl by (simp add: clipped_Dbl Let_def)
  qed
qed (simp_all add: clipped_special)

lemma velocity_big_bounds:
  "- 1108 \<le> left_velocity_big x z" "left_velocity_big x z \<le> 1108"
  "- 1108 \<le> right_velocity_big x z" "right_velocity_big x z \<le> 1108"
  using clipped_bounds by (simp_all add: left_velocity_big_def right_velocity_big_def)

subsection \<open>Commands evaluated\<close>

text \<open>
  The constants as binary64 values, and the registers of some commands: standstill,
  0.1 m/s forward and backward, a command that saturates, one whose product overflows,
  and the command \<open>(-17/256, -17/4)\<close>, whose left quotient is exactly 400 in real
  arithmetic and just below 400 in binary64.
\<close>

lemma constants_binary64:
  "WHEEL_DISTANCE = Dbl 8192948442112406 (- 57)"
  "WHEEL_RADIUS = Dbl 5764607523034235 (- 58)"
  "double_lit 68 4 = Dbl 7839866231326559 (- 60)"
  "double_lit 20 1 = Dbl 4503599627370496 (- 51)"
  "double_lit 1 1 = Dbl 7205759403792794 (- 56)"
  by code_simp+

lemma standstill_registers:
  "left_velocity_big (Dbl 0 0) (Dbl 0 0) = 0 \<and> right_velocity_big (Dbl 0 0) (Dbl 0 0) = 0"
  by code_simp

lemma forward_command_registers:
  "left_velocity_big (double_lit 1 1) (Dbl 0 0) = 735
   \<and> right_velocity_big (double_lit 1 1) (Dbl 0 0) = 735"
  by code_simp

lemma backward_command_registers:
  "left_velocity_big (dneg (double_lit 1 1)) (Dbl 0 0) = - 735
   \<and> right_velocity_big (dneg (double_lit 1 1)) (Dbl 0 0) = - 735"
  by code_simp

lemma saturated_registers:
  "left_velocity_big (Dbl 10 0) (Dbl 0 0) = 1108 \<and> right_velocity_big (Dbl (- 10) 0) (Dbl 0 0) = - 1108"
  by code_simp

lemma overflowing_command_registers:
  "left_velocity_big (Dbl 1 1023) (Dbl 0 0) = 1108 \<and> left_velocity_big (Dbl (- 1) 1023) (Dbl 0 0) = - 1108"
  by code_simp

lemma rounded_quotient_registers:
  "left_velocity_big (Dbl (- 17) (- 8)) (Dbl (- 17) (- 2)) = 399
   \<and> right_velocity_big (Dbl (- 17) (- 8)) (Dbl (- 17) (- 2)) = - 1108"
  by code_simp

lemma eighth_command_registers:
  "left_velocity_big (Dbl 1 (- 3)) (Dbl 0 0) = 919 \<and> right_velocity_big (Dbl 1 (- 3)) (Dbl 0 0) = 919"
  by code_simp

subsection \<open>C5: the wheel registers\<close>

text \<open>
  C5 as stated makes each register equal to the clipped quotient. It is not: the
  conversion to \<open>int\<close> drops the fractional part (the command \<open>(0.125, 0)\<close> has the
  clipped quotient 15625/17 = 919.11.. and the register 919), and the quotient is
  computed in binary64, not exactly (the command \<open>(-17/256, -17/4)\<close> has the exact
  quotient 400 and the register 399).
\<close>

theorem wheel_registers_not_the_clipped_quotient:
  "real_of_int (left_velocity_big (Dbl 1 (- 3)) (Dbl 0 0))
     \<noteq> max (- 1108) (min 1108 ((2 * (1 / 8) - 0 * 0.05685) / (2 * 0.02) / 0.0068))
   \<and> real_of_int (left_velocity_big (Dbl (- 17) (- 8)) (Dbl (- 17) (- 2)))
     \<noteq> max (- 1108) (min 1108 ((2 * (- 17 / 256) - (- 17 / 4) * 0.05685) / (2 * 0.02) / 0.0068))"
proof -
  have "left_velocity_big (Dbl 1 (- 3)) (Dbl 0 0) = 919" by code_simp
  moreover have "left_velocity_big (Dbl (- 17) (- 8)) (Dbl (- 17) (- 2)) = 399" by code_simp
  ultimately show ?thesis by simp
qed

text \<open>
  C5, amended: for every command \<open>(linear_x, angular_z)\<close> the quotients
  \<open>(2 * linear_x - angular_z * WHEEL_DISTANCE) / (2 * WHEEL_RADIUS) / 0.0068\<close> (left) and
  \<open>(2 * linear_x + angular_z * WHEEL_DISTANCE) / (2 * WHEEL_RADIUS) / 0.0068\<close> (right) are
  computed in \<open>double\<close> arithmetic, each operation rounded to binary64; a register is its
  quotient clipped to \<open>[-1108, 1108]\<close> and then cut to an integer towards zero (an
  infinite quotient gives the bound of its sign, NaN gives -1108). Both registers lie
  in \<open>[-1108, 1108]\<close>; the command \<open>(0, 0)\<close> gives the registers \<open>(0, 0)\<close>, the command
  \<open>(0.1, 0)\<close> gives \<open>(735, 735)\<close> and the command \<open>(-17/256, -17/4)\<close> gives \<open>(399, -1108)\<close>.
\<close>

theorem wheel_registers:
  assumes "ql = ddiv (ddiv (dsub (dmul (double_lit 20 1) linear_x)
                                 (dmul angular_z (double_lit 5685 5)))
                           (dmul (double_lit 20 1) (double_lit 2 2)))
                     (double_lit 68 4)"
    and "qr = ddiv (ddiv (dadd (dmul (double_lit 20 1) linear_x)
                                 (dmul angular_z (double_lit 5685 5)))
                           (dmul (double_lit 20 1) (double_lit 2 2)))
                     (double_lit 68 4)"
  shows "(\<forall>m e. ql = Dbl m e \<longrightarrow>
            left_velocity_big linear_x angular_z =
              (let c = max (- 1108) (min 1108 (real_of_int m * 2 powi e))
               in if 0 \<le> c then \<lfloor>c\<rfloor> else \<lceil>c\<rceil>))
       \<and> (ql = PosInf \<longrightarrow> left_velocity_big linear_x angular_z = 1108)
       \<and> (ql = NegInf \<or> ql = NaN \<longrightarrow> left_velocity_big linear_x angular_z = - 1108)
       \<and> (\<forall>m e. qr = Dbl m e \<longrightarrow>
            right_velocity_big linear_x angular_z =
              (let c = max (- 1108) (min 1108 (real_of_int m * 2 powi e))
               in if 0 \<le> c then \<lfloor>c\<rfloor> else \<lceil>c\<rceil>))
       \<and> (qr = PosInf \<longrightarrow> right_velocity_big linear_x angular_z = 1108)
       \<and> (qr = NegInf \<or> qr = NaN \<longrightarrow> right_velocity_big linear_x angular_z = - 1108)
       \<and> - 1108 \<le> left_velocity_big linear_x angular_z
       \<and> left_velocity_big linear_x angular_z \<le> 1108
       \<and> - 1108 \<le> right_velocity_big linear_x angular_z
       \<and> right_velocity_big linear_x angular_z \<le> 1108
       \<and> left_velocity_big (Dbl 0 0) (Dbl 0 0) = 0
       \<and> right_velocity_big (Dbl 0 0) (Dbl 0 0) = 0
       \<and> left_velocity_big (double_lit 1 1) (Dbl 0 0) = 735
       \<and> right_velocity_big (double_lit 1 1) (Dbl 0 0) = 735
       \<and> left_velocity_big (Dbl (- 17) (- 8)) (Dbl (- 17) (- 2)) = 399
       \<and> right_velocity_big (Dbl (- 17) (- 8)) (Dbl (- 17) (- 2)) = - 1108"
proof -
  have l: "left_velocity_big linear_x angular_z =
             double_to_int (CLIP ql (double_of_int (- 1108)) (double_of_int 1108))"
    by (simp only: left_velocity_big_def left_velocity_def WHEEL_DISTANCE_def
        WHEEL_RADIUS_def assms(1))
  have r: "right_velocity_big linear_x angular_z =
             double_to_int (CLIP qr (double_of_int (- 1108)) (double_of_int 1108))"
    by (simp only: right_velocity_big_def right_velocity_def WHEEL_DISTANCE_def
        WHEEL_RADIUS_def assms(2))
  have l1: "\<forall>m e. ql = Dbl m e \<longrightarrow>
            left_velocity_big linear_x angular_z =
              (let c = max (- 1108) (min 1108 (real_of_int m * 2 powi e))
               in if 0 \<le> c then \<lfloor>c\<rfloor> else \<lceil>c\<rceil>)"
    unfolding l by (auto simp only: clipped_Dbl)
  have l2: "ql = PosInf \<longrightarrow> left_velocity_big linear_x angular_z = 1108"
    unfolding l by (auto simp only: clipped_special)
  have l3: "ql = NegInf \<or> ql = NaN \<longrightarrow> left_velocity_big linear_x angular_z = - 1108"
    unfolding l by (auto simp only: clipped_special)
  have r1: "\<forall>m e. qr = Dbl m e \<longrightarrow>
            right_velocity_big linear_x angular_z =
              (let c = max (- 1108) (min 1108 (real_of_int m * 2 powi e))
               in if 0 \<le> c then \<lfloor>c\<rfloor> else \<lceil>c\<rceil>)"
    unfolding r by (auto simp only: clipped_Dbl)
  have r2: "qr = PosInf \<longrightarrow> right_velocity_big linear_x angular_z = 1108"
    unfolding r by (auto simp only: clipped_special)
  have r3: "qr = NegInf \<or> qr = NaN \<longrightarrow> right_velocity_big linear_x angular_z = - 1108"
    unfolding r by (auto simp only: clipped_special)
  note b = velocity_big_bounds [of linear_x angular_z]
  note z = standstill_registers
  note f = forward_command_registers
  note g = rounded_quotient_registers
  from l1 l2 l3 r1 r2 r3 b z f g show ?thesis by blast
qed

theorem wheel_registers_witness:
  "ddiv (ddiv (dsub (dmul (double_lit 20 1) (Dbl (- 17) (- 8)))
                    (dmul (Dbl (- 17) (- 2)) (double_lit 5685 5)))
              (dmul (double_lit 20 1) (double_lit 2 2)))
        (double_lit 68 4) = Dbl 7036874417766399 (- 44)
   \<and> left_velocity_big (Dbl (- 17) (- 8)) (Dbl (- 17) (- 2)) = 399
   \<and> ddiv (ddiv (dadd (dmul (double_lit 20 1) (Dbl (- 17) (- 8)))
                      (dmul (Dbl (- 17) (- 2)) (double_lit 5685 5)))
                (dmul (double_lit 20 1) (double_lit 2 2)))
          (double_lit 68 4) = Dbl (- 6054185900441601) (- 42)
   \<and> right_velocity_big (Dbl (- 17) (- 8)) (Dbl (- 17) (- 2)) = - 1108
   \<and> ddiv (ddiv (dsub (dmul (double_lit 20 1) (Dbl 1 1023))
                      (dmul (Dbl 0 0) (double_lit 5685 5)))
                (dmul (double_lit 20 1) (double_lit 2 2)))
          (double_lit 68 4) = PosInf
   \<and> left_velocity_big (Dbl 1 1023) (Dbl 0 0) = 1108
   \<and> ddiv (ddiv (dsub (dmul (double_lit 20 1) (Dbl (- 1) 1023))
                      (dmul (Dbl 0 0) (double_lit 5685 5)))
                (dmul (double_lit 20 1) (double_lit 2 2)))
          (double_lit 68 4) = NegInf
   \<and> left_velocity_big (Dbl (- 1) 1023) (Dbl 0 0) = - 1108"
proof -
  have ql: "Dbl 7036874417766399 (- 44) =
            ddiv (ddiv (dsub (dmul (double_lit 20 1) (Dbl (- 17) (- 8)))
                    (dmul (Dbl (- 17) (- 2)) (double_lit 5685 5)))
              (dmul (double_lit 20 1) (double_lit 2 2)))
        (double_lit 68 4)"
    by code_simp
  have qr: "Dbl (- 6054185900441601) (- 42) =
            ddiv (ddiv (dadd (dmul (double_lit 20 1) (Dbl (- 17) (- 8)))
                      (dmul (Dbl (- 17) (- 2)) (double_lit 5685 5)))
                (dmul (double_lit 20 1) (double_lit 2 2)))
          (double_lit 68 4)"
    by code_simp
  have qp: "PosInf =
            ddiv (ddiv (dsub (dmul (double_lit 20 1) (Dbl 1 1023))
                      (dmul (Dbl 0 0) (double_lit 5685 5)))
                (dmul (double_lit 20 1) (double_lit 2 2)))
          (double_lit 68 4)"
    by code_simp
  have qp': "PosInf =
            ddiv (ddiv (dadd (dmul (double_lit 20 1) (Dbl 1 1023))
                      (dmul (Dbl 0 0) (double_lit 5685 5)))
                (dmul (double_lit 20 1) (double_lit 2 2)))
          (double_lit 68 4)"
    by code_simp
  have qn: "NegInf =
            ddiv (ddiv (dsub (dmul (double_lit 20 1) (Dbl (- 1) 1023))
                      (dmul (Dbl 0 0) (double_lit 5685 5)))
                (dmul (double_lit 20 1) (double_lit 2 2)))
          (double_lit 68 4)"
    by code_simp
  have qn': "NegInf =
            ddiv (ddiv (dadd (dmul (double_lit 20 1) (Dbl (- 1) 1023))
                      (dmul (Dbl 0 0) (double_lit 5685 5)))
                (dmul (double_lit 20 1) (double_lit 2 2)))
          (double_lit 68 4)"
    by code_simp
  have fl: "\<lfloor>(7036874417766399::real) * 2 powi (- 44)\<rfloor> = 399"
    by (simp add: power_int_def power_one_over)
  have vl: "0 \<le> (7036874417766399::real) * 2 powi (- 44)"
           "(7036874417766399::real) * 2 powi (- 44) \<le> 1108"
    by (simp_all add: power_int_def power_one_over)
  have vr: "(- 6054185900441601::real) * 2 powi (- 42) \<le> - 1108"
    by (simp add: power_int_def power_one_over)
  from wheel_registers [OF ql qr]
  have "left_velocity_big (Dbl (- 17) (- 8)) (Dbl (- 17) (- 2)) =
          (let c = max (- 1108) (min 1108 (real_of_int 7036874417766399 * 2 powi (- 44)))
           in if 0 \<le> c then \<lfloor>c\<rfloor> else \<lceil>c\<rceil>)"
    and "right_velocity_big (Dbl (- 17) (- 8)) (Dbl (- 17) (- 2)) =
          (let c = max (- 1108) (min 1108 (real_of_int (- 6054185900441601) * 2 powi (- 42)))
           in if 0 \<le> c then \<lfloor>c\<rfloor> else \<lceil>c\<rceil>)"
    by blast+
  then have a: "left_velocity_big (Dbl (- 17) (- 8)) (Dbl (- 17) (- 2)) = 399"
    and b: "right_velocity_big (Dbl (- 17) (- 8)) (Dbl (- 17) (- 2)) = - 1108"
    using fl vl vr by (simp_all add: Let_def max_def min_def)
  from wheel_registers [OF qp qp']
  have c: "left_velocity_big (Dbl 1 1023) (Dbl 0 0) = 1108" by blast
  from wheel_registers [OF qn qn']
  have d: "left_velocity_big (Dbl (- 1) 1023) (Dbl 0 0) = - 1108" by blast
  from a b c d ql [symmetric] qr [symmetric] qp [symmetric] qn [symmetric]
  show ?thesis by (simp only: simp_thms)
qed

section \<open>Properties of the actuator frame's byte packing\<close>

lemma and_255: "(v::int) AND 0xFF = take_bit 8 v"
proof -
  have "(0xFF::int) = mask 8" by (simp add: mask_eq_exp_minus_1)
  then show ?thesis by (simp only: take_bit_eq_mask)
qed

lemma byte_pair_value:
  "word_cat (high_byte v) (low_byte v) = (word_of_int v :: 16 word)"
  unfolding low_byte_def high_byte_def and_255
  by (rule bit_word_eqI) (auto simp add: bit_word_cat_iff bit_simps)

lemma decode_encode:
  assumes "-32768 \<le> v" "v < 32768"
  shows "decode_int16_le (low_byte v) (high_byte v) = v"
proof -
  have "signed_take_bit 15 v = v"
    using assms by (simp add: signed_take_bit_int_eq_self)
  then show ?thesis
    unfolding decode_int16_le_def byte_pair_value by (simp add: sint_sbintrunc')
qed

lemma uint_bytes:
  "uint (low_byte v) = v mod 256" "uint (high_byte v) = v div 256 mod 256"
  by (simp_all add: low_byte_def high_byte_def and_255 uint_word_of_int take_bit_eq_mod
      drop_bit_eq_div)

lemma unsigned_pair_value:
  assumes "- 32768 \<le> v" "v < 32768"
  shows "uint (low_byte v) + 256 * uint (high_byte v) = (if 0 \<le> v then v else v + 65536)"
proof -
  have "v mod 256 + 256 * (v div 256 mod 256) = v mod 65536"
    using zmod_zmult2_eq [of 256 v 256] by simp
  moreover have "v mod 65536 = (if 0 \<le> v then v else v + 65536)"
  proof (cases "0 \<le> v")
    case True
    then show ?thesis using assms by (simp add: mod_pos_pos_trivial)
  next
    case False
    have "v mod 65536 = (v + 65536) mod 65536" by simp
    also have "\<dots> = v + 65536" using assms False by (intro mod_pos_pos_trivial) simp_all
    finally show ?thesis using False by simp
  qed
  ultimately show ?thesis by (simp add: uint_bytes)
qed

lemma store_registers_bytes:
  assumes "length (msg_actuators st) = MSG_ACTUATORS_SIZE"
  shows "msg_actuators (store_registers l r st) ! 0 = low_byte l"
    and "msg_actuators (store_registers l r st) ! 1 = high_byte l"
    and "msg_actuators (store_registers l r st) ! 2 = low_byte r"
    and "msg_actuators (store_registers l r st) ! 3 = high_byte r"
    and "drop 4 (msg_actuators (store_registers l r st)) = drop 4 (msg_actuators st)"
    and "length (msg_actuators (store_registers l r st)) = MSG_ACTUATORS_SIZE"
  using assms by (simp_all add: store_registers_def MSG_ACTUATORS_SIZE_def)

text \<open>
  The node's own decoder, the one of the sensor frame, is not a signed 16-bit reading:
  on the bytes \<open>(0xFF, 0xFF)\<close> it gives 65535 where \<open>char\<close> is unsigned and -257 where it
  is signed.
\<close>

lemma distance_intensity_not_signed16:
  "distance_intensity False [0xFF, 0xFF] 0 = 65535 \<and> distance_intensity True [0xFF, 0xFF] 0 = -257"
  by (simp add: distance_intensity_def char_to_int_def push_bit_eq_mult)

subsection \<open>C9: a register survives the two-byte encoding\<close>

text \<open>
  C9: for every register value in \<open>[-1108, 1108]\<close>, the node writes it into the actuator
  frame as two bytes, low byte then high byte (the left register into the bytes 0 and
  1, the right one into the bytes 2 and 3), and these two bytes read back as a
  little-endian signed 16-bit number give the register value again; 300 is written as
  \<open>(0x2C, 0x01)\<close> and -1 as \<open>(0xFF, 0xFF)\<close>. So it is for the registers of every command
  that \<open>on_cmd_vel_received\<close> handles.
\<close>

theorem actuator_frame_round_trip:
  assumes "length (msg_actuators st) = MSG_ACTUATORS_SIZE"
  shows "(- 1108 \<le> l \<and> l \<le> 1108 \<and> - 1108 \<le> r \<and> r \<le> 1108 \<longrightarrow>
            decode_int16_le (msg_actuators (store_registers l r st) ! 0)
                            (msg_actuators (store_registers l r st) ! 1) = l
          \<and> decode_int16_le (msg_actuators (store_registers l r st) ! 2)
                            (msg_actuators (store_registers l r st) ! 3) = r
          \<and> uint (msg_actuators (store_registers l r st) ! 0)
              + 256 * uint (msg_actuators (store_registers l r st) ! 1)
              = (if 0 \<le> l then l else l + 65536)
          \<and> uint (msg_actuators (store_registers l r st) ! 2)
              + 256 * uint (msg_actuators (store_registers l r st) ! 3)
              = (if 0 \<le> r then r else r + 65536))
       \<and> take 4 (msg_actuators (store_registers 300 (- 1) st)) = [0x2C, 0x01, 0xFF, 0xFF]
       \<and> decode_int16_le (msg_actuators (on_cmd_vel_received x z st) ! 0)
                         (msg_actuators (on_cmd_vel_received x z st) ! 1)
           = left_velocity_big x z
       \<and> decode_int16_le (msg_actuators (on_cmd_vel_received x z st) ! 2)
                         (msg_actuators (on_cmd_vel_received x z st) ! 3)
           = right_velocity_big x z"
proof -
  note sb = store_registers_bytes [OF assms]
  have a: "- 1108 \<le> l \<and> l \<le> 1108 \<and> - 1108 \<le> r \<and> r \<le> 1108 \<longrightarrow>
            decode_int16_le (msg_actuators (store_registers l r st) ! 0)
                            (msg_actuators (store_registers l r st) ! 1) = l
          \<and> decode_int16_le (msg_actuators (store_registers l r st) ! 2)
                            (msg_actuators (store_registers l r st) ! 3) = r
          \<and> uint (msg_actuators (store_registers l r st) ! 0)
              + 256 * uint (msg_actuators (store_registers l r st) ! 1)
              = (if 0 \<le> l then l else l + 65536)
          \<and> uint (msg_actuators (store_registers l r st) ! 2)
              + 256 * uint (msg_actuators (store_registers l r st) ! 3)
              = (if 0 \<le> r then r else r + 65536)"
    by (simp only: sb) (simp add: decode_encode unsigned_pair_value)
  have "msg_actuators (store_registers 300 (- 1) st)
          = take 4 (msg_actuators (store_registers 300 (- 1) st))
            @ drop 4 (msg_actuators (store_registers 300 (- 1) st))"
    by simp
  have len: "length (msg_actuators (store_registers 300 (- 1) st)) = 20"
    using sb(6) by (simp add: MSG_ACTUATORS_SIZE_def)
  have b: "take 4 (msg_actuators (store_registers 300 (- 1) st)) = [0x2C, 0x01, 0xFF, 0xFF]"
  proof (rule nth_equalityI)
    show "length (take 4 (msg_actuators (store_registers 300 (- 1) st)))
            = length [0x2C, 0x01, 0xFF, 0xFF :: byte]"
      using len by simp
  next
    fix i
    assume "i < length (take 4 (msg_actuators (store_registers 300 (- 1) st)))"
    then have "i < 4" by simp
    then consider "i = 0" | "i = 1" | "i = 2" | "i = 3" by linarith
    then show "take 4 (msg_actuators (store_registers 300 (- 1) st)) ! i
                 = [0x2C, 0x01, 0xFF, 0xFF] ! i"
      by cases (simp_all add: sb sb(2) [unfolded One_nat_def] low_byte_def high_byte_def)
  qed
  have rng: "- 32768 \<le> left_velocity_big x z" "left_velocity_big x z < 32768"
            "- 32768 \<le> right_velocity_big x z" "right_velocity_big x z < 32768"
    using velocity_big_bounds [of x z] by simp_all
  have c: "decode_int16_le (msg_actuators (on_cmd_vel_received x z st) ! 0)
                         (msg_actuators (on_cmd_vel_received x z st) ! 1)
           = left_velocity_big x z
       \<and> decode_int16_le (msg_actuators (on_cmd_vel_received x z st) ! 2)
                         (msg_actuators (on_cmd_vel_received x z st) ! 3)
           = right_velocity_big x z"
    unfolding on_cmd_vel_received_def by (simp only: sb) (simp add: decode_encode rng)
  from a b c show ?thesis by blast
qed

theorem actuator_frame_round_trip_witness:
  "length (msg_actuators init) = MSG_ACTUATORS_SIZE
   \<and> - 1108 \<le> (300::int) \<and> (300::int) \<le> 1108 \<and> - 1108 \<le> (- 1::int) \<and> (- 1::int) \<le> 1108
   \<and> decode_int16_le (msg_actuators (store_registers 300 (- 1) init) ! 0)
                     (msg_actuators (store_registers 300 (- 1) init) ! 1) = 300
   \<and> decode_int16_le (msg_actuators (store_registers 300 (- 1) init) ! 2)
                     (msg_actuators (store_registers 300 (- 1) init) ! 3) = - 1
   \<and> take 4 (msg_actuators (store_registers 300 (- 1) init)) = [0x2C, 0x01, 0xFF, 0xFF]
   \<and> decode_int16_le (msg_actuators (on_cmd_vel_received (double_lit 1 1) (Dbl 0 0) init) ! 0)
                     (msg_actuators (on_cmd_vel_received (double_lit 1 1) (Dbl 0 0) init) ! 1)
       = left_velocity_big (double_lit 1 1) (Dbl 0 0)"
proof -
  have len: "length (msg_actuators init) = MSG_ACTUATORS_SIZE"
    by (simp add: init_def)
  from actuator_frame_round_trip [OF len, of 300 "- 1" "double_lit 1 1" "Dbl 0 0"] len
  show ?thesis by simp
qed

section \<open>Properties of the scan assembly\<close>

lemma scan_ranges_length: "length (scan_ranges dists) = 21"
  by (simp add: scan_ranges_def)

lemma scan_ranges_blends_vanish:
  "scan_ranges dists ! 1 = 0 \<and> scan_ranges dists ! 2 = 0 \<and> scan_ranges dists ! 3 = 0
   \<and> scan_ranges dists ! 5 = 0 \<and> scan_ranges dists ! 6 = 0 \<and> scan_ranges dists ! 8 = 0
   \<and> scan_ranges dists ! 10 = 0 \<and> scan_ranges dists ! 12 = 0 \<and> scan_ranges dists ! 14 = 0
   \<and> scan_ranges dists ! 15 = 0 \<and> scan_ranges dists ! 17 = 0 \<and> scan_ranges dists ! 18 = 0
   \<and> scan_ranges dists ! 19 = 0"
  by (simp add: scan_ranges_def)

subsection \<open>C2: the entries between two sensors\<close>

text \<open>
  C2 asks each entry between two sensors to be a blend of the two neighbours with
  weights 1/4, 1/3, 1/2, 2/3 or 3/4. The code does not do that: every weight is a
  quotient of two \<open>int\<close> literals and is 0, so each such entry is 0. With all eight
  sensors at 0.085 m any blend with weights summing to 1 is 0.085; the scan has 0.
\<close>

theorem scan_ranges_uniform_input:
  "scan_ranges [0.085, 0.085, 0.085, 0.085, 0.085, 0.085, 0.085, 0.085] =
     [0.085, 0, 0, 0, 0.085, 0, 0, 0.085, 0, 0.085, 0, 0.085, 0, 0.085, 0, 0, 0.085, 0, 0, 0, 0.085]"
  by (simp add: scan_ranges_def)

subsection \<open>C3: the entries at a sensor's bearing\<close>

text \<open>
  C3 as stated lists index 10 among the entries that copy a sensor. Index 10 is the
  bearing 0, which lies between sensors 7 and 0; its entry is none of the eight
  distances.
\<close>

theorem scan_ranges_index_10_not_raw:
  "scan_ranges [0.04, 0.05, 0.06, 0.07, 0.08, 0.09, 0.1, 0.11] ! 10
     \<notin> set [0.04, 0.05, 0.06, 0.07, 0.08, 0.09, 0.1, 0.11]"
  by (simp add: scan_ranges_def)

text \<open>
  C3, amended: the scan entries at the indices 0, 4, 16 and 20 equal the distances of
  the sensors 4, 5, 2 and 3, unmodified.
\<close>

theorem scan_ranges_sensor_entries:
  "scan_ranges dists ! 0 = dists ! 4 \<and> scan_ranges dists ! 4 = dists ! 5
   \<and> scan_ranges dists ! 16 = dists ! 2 \<and> scan_ranges dists ! 20 = dists ! 3"
  by (simp add: scan_ranges_def)

text \<open>The other four sensors are copied to the indices 7, 9, 11 and 13.\<close>

lemma scan_ranges_other_sensor_entries:
  "scan_ranges dists ! 7 = dists ! 6 \<and> scan_ranges dists ! 9 = dists ! 7
   \<and> scan_ranges dists ! 11 = dists ! 0 \<and> scan_ranges dists ! 13 = dists ! 1"
  by (simp add: scan_ranges_def)

subsection \<open>C7: the fixed fields of the message\<close>

text \<open>
  C7 asks for fixed metadata: the angles -150 and +150 degrees and the increment 15 degrees in
  radians, the range limits 0.005 and 0.05 plus the offset 0.035, and a scan time of
  0.064 seconds. The code sets the angles, the increment and the range limits so, but
  its scan time is \<open>PERIOD_MS / 1000\<close> on two \<open>int\<close> operands, which is 0.
\<close>

theorem laser_scan_msg_metadata:
  "angle_min (laser_scan_msg dists stmp) = - (150 * pi / 180)
   \<and> angle_max (laser_scan_msg dists stmp) = 150 * pi / 180
   \<and> angle_increment (laser_scan_msg dists stmp) = 15 * pi / 180
   \<and> range_min (laser_scan_msg dists stmp) = 0.005 + 0.035
   \<and> range_max (laser_scan_msg dists stmp) = 0.05 + 0.035
   \<and> scan_time (laser_scan_msg dists stmp) = 0
   \<and> scan_time (laser_scan_msg dists stmp) \<noteq> 0.064"
  by (simp add: laser_scan_msg_def distance_from_center_def PERIOD_MS_def)

lemma publish_distance_data_appends:
  "laser_published (publish_distance_data cs stmp st) =
     laser_published st @ [laser_scan_msg (decode_measurements cs (msg_sensors st)) stmp]"
  by (simp add: publish_distance_data_def Let_def)

lemma decode_measurements_init:
  "decode_measurements cs (replicate 47 0) = replicate 8 100.035"
  apply (simp add: decode_measurements_def distance_intensity_def char_to_int_def
      distance_from_center_def upt_rec numeral_nat)
  apply (simp add: intensity_to_distance_def table_def)
  done

section \<open>Properties of the periodic exchange\<close>

lemma update_callback_keeps_published:
  "update_callback ndebug io st = Inr (st', stmp) \<Longrightarrow> laser_published st' = laser_published st"
  by (auto simp add: update_callback_def Let_def split: if_splits)

lemma on_cmd_vel_received_keeps_published:
  "laser_published (on_cmd_vel_received x z st) = laser_published st"
  by (simp add: on_cmd_vel_received_def store_registers_def)

lemma spin_keeps_published:
  "spin ndebug evs st = Inr st' \<Longrightarrow> laser_published st' = laser_published st"
proof (induction ndebug evs st rule: spin.induct)
  case (1 ndebug st)
  then show ?case by simp
next
  case (2 ndebug io evs st)
  then show ?case
    by (auto split: sum.splits prod.splits dest: update_callback_keeps_published)
next
  case (3 ndebug linear_x angular_z evs st)
  then show ?case by (simp add: on_cmd_vel_received_keeps_published)
qed

subsection \<open>C1: a successful tick\<close>

text \<open>
  C1 asks a tick whose transaction succeeds to publish one scan stamped with the tick's
  time. The code does not: \<open>update_callback\<close> ends after \<open>stamp = now()\<close> and never calls
  \<open>publish_distance_data\<close>. Here the address is selected, 47 bytes arrive, the sensor
  frame is updated, and the list of published messages is still empty.
\<close>

theorem tick_publishes_nothing:
  "update_callback False \<lparr>set_address_status = 0, read_bytes = replicate 47 1, now = 5\<rparr> init
     = Inr (init\<lparr>i2c_written := [replicate 20 0], msg_sensors := replicate 47 1\<rparr>, 5)
   \<and> laser_published (init\<lparr>i2c_written := [replicate 20 0], msg_sensors := replicate 47 1\<rparr>) = []"
  by (simp add: update_callback_def init_def read_data_def MSG_ACTUATORS_SIZE_def MSG_SENSORS_SIZE_def)

subsection \<open>C6: a tick whose address selection fails\<close>

text \<open>
  C6 as stated says that the tick is skipped, the sensor frame is kept and the process
  goes on. With the assertion compiled in, the process ends; with the assertion
  compiled out, the exchange is carried out and the sensor frame is overwritten.
\<close>

theorem address_failure_counterexample:
  "update_callback False \<lparr>set_address_status = -1, read_bytes = replicate 47 1, now = 5\<rparr> init
     = Inl (AssertionFailed, init)
   \<and> update_callback True \<lparr>set_address_status = -1, read_bytes = replicate 47 1, now = 5\<rparr> init
     = Inr (init\<lparr>i2c_written := [replicate 20 0], msg_sensors := replicate 47 1\<rparr>, 5)
   \<and> msg_sensors (init\<lparr>i2c_written := [replicate 20 0], msg_sensors := replicate 47 1\<rparr>) \<noteq> msg_sensors init"
  by (simp add: update_callback_def init_def read_data_def MSG_ACTUATORS_SIZE_def MSG_SENSORS_SIZE_def)

text \<open>
  C6, amended: when selecting the target address fails on a tick (a negative status)
  and assertions are compiled in, the assertion on the status ends the process in that
  tick, in the state the tick began with: nothing has been written to or read from
  the bus, the sensor frame is not updated and nothing is published; no later event is
  handled.
\<close>

theorem address_failure_aborts:
  "set_address_status io < 0 \<Longrightarrow>
     update_callback False io st = Inl (AssertionFailed, st)
     \<and> spin False (Tick io # evs) st = Inl (AssertionFailed, st)"
  by (simp add: update_callback_def)

theorem address_failure_aborts_witness:
  "set_address_status \<lparr>set_address_status = -1, read_bytes = replicate 47 1, now = 0\<rparr> < 0
   \<and> update_callback False \<lparr>set_address_status = -1, read_bytes = replicate 47 1, now = 0\<rparr> init
        = Inl (AssertionFailed, init)
   \<and> spin False [Tick \<lparr>set_address_status = -1, read_bytes = replicate 47 1, now = 0\<rparr>,
                   Tick \<lparr>set_address_status = 0, read_bytes = replicate 47 1, now = 64\<rparr>] init
        = Inl (AssertionFailed, init)"
  using address_failure_aborts [of "\<lparr>set_address_status = -1, read_bytes = replicate 47 1, now = 0\<rparr>" init
      "[Tick \<lparr>set_address_status = 0, read_bytes = replicate 47 1, now = 64\<rparr>]"]
  by simp

text \<open>
  The order matters: a tick that succeeds does write and read, so the state it ends
  with differs from the one it began with.
\<close>

lemma successful_tick_changes_state:
  "0 \<le> set_address_status io \<Longrightarrow>
     update_callback ndebug io st =
       Inr (st\<lparr>i2c_written := i2c_written st @ [take MSG_ACTUATORS_SIZE (msg_actuators st)],
               msg_sensors := read_data (read_bytes io) MSG_SENSORS_SIZE (msg_sensors st)\<rparr>,
            if set_address_status io \<noteq> int MSG_SENSORS_SIZE then now io else 0)"
  by (simp add: update_callback_def Let_def)

end
